theory Spec2Isabelle
  imports Main "HOL-Library.AList"
begin

section \<open>SPIRAL (pyspiral): values, expressions and error codes\<close>

text \<open>
  The embedding follows \<^verbatim>\<open>pyspiral/types.py\<close> and \<^verbatim>\<open>pyspiral/errors.py\<close>.
  A frozen dataclass of the value or expression union becomes a constructor of a
  datatype; the \<^verbatim>\<open>kind\<close> field is the constructor itself. The source reads fields both
  as attributes (\<^verbatim>\<open>v.kind\<close>) and by subscript (\<^verbatim>\<open>fn_value["params"]\<close>); both are
  field selection here. Dictionaries are maps.

  Left out of the value universe: the \<^verbatim>\<open>meta\<close> dictionary of an error value, the
  payload of an opaque value and the type annotations of expressions and parameters
  (none of them is read by the functions embedded below).
  A Python float is represented by the text that \<^verbatim>\<open>str\<close> prints for it.
\<close>

datatype error_code =
    TypeError | ArityError | DomainError | DivideByZero
  | UnknownOperator | UnknownDefinition | UnboundIdentifier
  | NonTermination | TimeoutError | SelectTimeout | ValidationError

datatype pyfloat = PyFloat (float_str: string)

datatype prim_lit =
    LitVoid
  | LitBool bool
  | LitInt int
  | LitFloat pyfloat
  | LitString string
  | LitOpaque string
  | LitOther string

datatype expr =
    LitExpr prim_lit
  | LitSetExpr "value list option"
  | LitMapExpr "(value \<times> value) list option"
  | LitOptionExpr "value option"
  | RefExpr string
  | VarExpr string
  | CallExpr string string "arg list"
  | IfExpr arg arg arg
  | LetExpr string arg arg
  | AirRefExpr string string "string list"
  | PredicateExpr string string
  | LambdaExpr "lambda_param list" string
  | CallFnExpr string "string list"
  | FixExpr string
  | EirSeqExpr string string
  | EirAssignExpr string string
  | EirWhileExpr string string
  | EirForExpr string string string string string
  | EirIterExpr string string string
  | EirEffectExpr string "string list"
  | EirRefCellExpr string
  | EirDerefExpr string
  | EirTryExpr string string string "string option"
  | PirExpr string
and arg = NodeRef string | Inline expr
and lambda_param =
    LambdaParam (param_name: string) (param_optional: bool) (param_default: "expr option")
and "value" =
    BoolVal bool
  | IntVal int
  | FloatVal pyfloat
  | StringVal string
  | ListVal "value list"
  | SetVal "string set"
  | MapVal "string \<Rightarrow> value option"
  | OptionVal "value option"
  | OpaqueVal string
  | ClosureVal (closure_params: "lambda_param list") (closure_body: expr)
      (closure_env: "string \<Rightarrow> value option")
  | VoidVal
  | RefCellVal "value"
  | ErrorVal error_code "string option"
  | FutureVal string string "value option"
  | ChannelVal string string
  | TaskVal string
  | SelectResultVal int "value"

text \<open>
  A literal expression pairs a type annotation with a raw payload. The literal
  constructors hold the pairs in which the payload already has the annotated type, so
  that the conversions \<^verbatim>\<open>bool(value)\<close>, \<^verbatim>\<open>int(value)\<close>, \<^verbatim>\<open>float(value)\<close> and
  \<^verbatim>\<open>str(value)\<close> of \<^verbatim>\<open>_eval_lit\<close> are identities: \<open>LitExpr\<close> for the annotations
  void, bool, int, float, string and opaque (\<open>LitOther k\<close> is a literal whose annotation
  has any further kind \<open>k\<close>), \<open>LitSetExpr\<close> and \<open>LitMapExpr\<close> for a set or map annotation,
  whose payload is either a list (\<open>Some\<close>) or not a list (\<open>None\<close>), and \<open>LitOptionExpr\<close>.
  List literals are not part of the fragment.
  An argument of an operator call, and each operand of \<^verbatim>\<open>if\<close> and \<^verbatim>\<open>let\<close>, is a
  node reference (a string) or an inline expression. A lambda parameter given as a bare
  name is the \<open>LambdaParam\<close> with that name, not optional and without default, which is
  what \<^verbatim>\<open>_eval_lambda\<close> converts it to. \<open>PirExpr k\<close> stands for the eight PIR expression
  kinds, \<open>k\<close> being the kind.
\<close>

type_synonym env = "string \<Rightarrow> value option"

fun kind :: "value \<Rightarrow> string" where
  "kind (BoolVal _) = ''bool''"
| "kind (IntVal _) = ''int''"
| "kind (FloatVal _) = ''float''"
| "kind (StringVal _) = ''string''"
| "kind (ListVal _) = ''list''"
| "kind (SetVal _) = ''set''"
| "kind (MapVal _) = ''map''"
| "kind (OptionVal _) = ''option''"
| "kind (OpaqueVal _) = ''opaque''"
| "kind (ClosureVal _ _ _) = ''closure''"
| "kind VoidVal = ''void''"
| "kind (RefCellVal _) = ''refCell''"
| "kind (ErrorVal _ _) = ''error''"
| "kind (FutureVal _ _ _) = ''future''"
| "kind (ChannelVal _ _) = ''channel''"
| "kind (TaskVal _) = ''task''"
| "kind (SelectResultVal _ _) = ''selectResult''"

definition is_error :: "value \<Rightarrow> bool" where
  "is_error v = (kind v = ''error'')"

definition is_closure :: "value \<Rightarrow> bool" where
  "is_closure v = (kind v = ''closure'')"

definition is_ref_cell :: "value \<Rightarrow> bool" where
  "is_ref_cell v = (kind v = ''refCell'')"

definition error_val :: "error_code \<Rightarrow> string \<Rightarrow> value" where
  "error_val code message = ErrorVal code (Some message)"

definition undefined_val :: "value" where
  "undefined_val = OptionVal None"

text \<open>The error code of a value, when it is an error value.\<close>

fun error_code_of :: "value \<Rightarrow> error_code option" where
  "error_code_of (ErrorVal c _) = Some c"
| "error_code_of _ = None"


section \<open>Environments (\<^verbatim>\<open>env.py\<close>)\<close>

definition lookup_value :: "env \<Rightarrow> string \<Rightarrow> value option" where
  "lookup_value env name = env name"

definition extend_value_env :: "env \<Rightarrow> string \<Rightarrow> value \<Rightarrow> env" where
  "extend_value_env env name v = env(name \<mapsto> v)"

section \<open>Printing integers and value hashing (\<^verbatim>\<open>types.py\<close>)\<close>

text \<open>Python's \<^verbatim>\<open>str\<close> on a bool and on an int (decimal, with a minus sign).\<close>

definition str_bool :: "bool \<Rightarrow> string" where
  "str_bool b = (if b then ''True'' else ''False'')"

definition digit_char :: "nat \<Rightarrow> char" where
  "digit_char d = ''0123456789'' ! (d mod 10)"

function str_nat :: "nat \<Rightarrow> string" where
  "str_nat n = (if n < 10 then [digit_char n] else str_nat (n div 10) @ [digit_char n])"
  by pat_completeness auto
termination
  by (relation "measure id") auto

declare str_nat.simps [simp del]

definition str_int :: "int \<Rightarrow> string" where
  "str_int i = (if i < 0 then ''-'' @ str_nat (nat (- i)) else str_nat (nat i))"

text \<open>
  \<^verbatim>\<open>hash_value\<close>. The token \<^verbatim>\<open>uuid.uuid4().hex[:8]\<close> comes from the host's random
  source: \<open>tok k\<close> is the token the \<open>k\<close>-th draw returns, and the function takes the
  number of draws made so far and returns it updated.
\<close>

fun hash_value :: "(nat \<Rightarrow> string) \<Rightarrow> value \<Rightarrow> nat \<Rightarrow> string \<times> nat" where
  "hash_value tok (BoolVal b) n = (''b:'' @ str_bool b, n)"
| "hash_value tok (IntVal i) n = (''i:'' @ str_int i, n)"
| "hash_value tok (FloatVal f) n = (''f:'' @ float_str f, n)"
| "hash_value tok (StringVal s) n = (''s:'' @ s, n)"
| "hash_value tok (OptionVal None) n = (''o:none'', n)"
| "hash_value tok (OptionVal (Some v)) n =
     (case hash_value tok v n of (h, n') \<Rightarrow> (''o:some:'' @ h, n'))"
| "hash_value tok v n = (''ref:'' @ tok n, Suc n)"

section \<open>Operator registry (\<^verbatim>\<open>domains/registry.py\<close>)\<close>

text \<open>
  An implementation receives the evaluated operands; it returns a value, raises a
  \<^verbatim>\<open>SPIRALError\<close> with a code, or raises another exception with a text.
\<close>

datatype impl_result = ImplReturn "value" | ImplSPIRALError error_code | ImplException string

datatype ty = BoolType | IntType | FloatType | StringType | VoidType | OtherType string

record operator =
  op_ns :: string
  op_name :: string
  op_params :: "ty list"
  op_returns :: ty
  op_pure :: bool
  op_impl :: "value list \<Rightarrow> impl_result"

type_synonym registry = "string \<Rightarrow> operator option"

definition registry_lookup :: "registry \<Rightarrow> string \<Rightarrow> string \<Rightarrow> operator option" where
  "registry_lookup reg ns name = reg (ns @ '':'' @ name)"

text \<open>
  The \<^verbatim>\<open>try\<close> block around \<^verbatim>\<open>op.impl(*arg_values)\<close> in \<^verbatim>\<open>_eval_call\<close>:
  \<^verbatim>\<open>e.to_value()\<close> keeps the code and drops the message.
\<close>

definition apply_impl :: "operator \<Rightarrow> value list \<Rightarrow> value" where
  "apply_impl op arg_values =
     (case op_impl op arg_values of
        ImplReturn v \<Rightarrow> v
      | ImplSPIRALError c \<Rightarrow> ErrorVal c None
      | ImplException msg \<Rightarrow> error_val DomainError msg)"

section \<open>The expression evaluator (\<^verbatim>\<open>evaluator.py\<close>)\<close>

text \<open>
  \<open>EvalContext\<close> is the mutable state threaded through \<^verbatim>\<open>_eval_expr\<close>; \<open>uuid_draws\<close>
  is the host's count of random tokens drawn (not a field of the dataclass).
  A call returns a value or raises \<^verbatim>\<open>SPIRALError\<close> (\<open>Raise\<close>). The recursion of
  \<^verbatim>\<open>_eval_expr\<close> is bounded by a depth \<open>fuel\<close>; \<open>OutOfFuel\<close> says that the depth was
  too small.
\<close>

record eval_context =
  steps :: int
  max_steps :: int
  trace :: bool
  uuid_draws :: nat

datatype 'a outcome = Return 'a | Raise error_code string | OutOfFuel

type_synonym evaluator = "expr \<Rightarrow> env \<Rightarrow> eval_context \<Rightarrow> value outcome \<times> eval_context"

definition and_then ::
  "'a outcome \<times> eval_context \<Rightarrow> ('a \<Rightarrow> eval_context \<Rightarrow> 'b outcome \<times> eval_context)
     \<Rightarrow> 'b outcome \<times> eval_context" where
  "and_then r k =
     (case r of
        (Return x, st) \<Rightarrow> k x st
      | (Raise c m, st) \<Rightarrow> (Raise c m, st)
      | (OutOfFuel, st) \<Rightarrow> (OutOfFuel, st))"

definition check_steps :: "eval_context \<Rightarrow> unit outcome \<times> eval_context" where
  "check_steps state =
     (let state' = state\<lparr>steps := steps state + 1\<rparr>
      in if steps state' > max_steps state'
         then (Raise NonTermination ''Expression evaluation did not terminate'', state')
         else (Return (), state'))"

subsection \<open>Literals\<close>

definition eval_lit_prim :: "prim_lit \<Rightarrow> value" where
  "eval_lit_prim l =
     (case l of
        LitVoid \<Rightarrow> VoidVal
      | LitBool b \<Rightarrow> BoolVal b
      | LitInt i \<Rightarrow> IntVal i
      | LitFloat f \<Rightarrow> FloatVal f
      | LitString s \<Rightarrow> StringVal s
      | LitOpaque name \<Rightarrow> OpaqueVal name
      | LitOther k \<Rightarrow> error_val TypeError (''Cannot create literal for type: '' @ k))"

text \<open>\<^verbatim>\<open>set(hash_value(v) for v in value)\<close>: the hashes in order, then their set.\<close>

fun hash_all :: "(nat \<Rightarrow> string) \<Rightarrow> value list \<Rightarrow> nat \<Rightarrow> string list \<times> nat" where
  "hash_all tok [] n = ([], n)"
| "hash_all tok (v # vs) n =
     (case hash_value tok v n of (h, n') \<Rightarrow>
        (case hash_all tok vs n' of (hs, n'') \<Rightarrow> (h # hs, n'')))"

definition eval_lit_set ::
  "(nat \<Rightarrow> string) \<Rightarrow> value list option \<Rightarrow> eval_context \<Rightarrow> value \<times> eval_context" where
  "eval_lit_set tok payload state =
     (case payload of
        None \<Rightarrow> (error_val TypeError ''Set value must be array'', state)
      | Some vs \<Rightarrow>
          (case hash_all tok vs (uuid_draws state) of
             (hs, n) \<Rightarrow> (SetVal (set hs), state\<lparr>uuid_draws := n\<rparr>)))"

text \<open>The loop \<^verbatim>\<open>for k, v in value: map_dict[hash_value(k)] = v\<close>.\<close>

fun build_map ::
  "(nat \<Rightarrow> string) \<Rightarrow> (value \<times> value) list \<Rightarrow> (string \<Rightarrow> value option) \<Rightarrow> nat
     \<Rightarrow> (string \<Rightarrow> value option) \<times> nat" where
  "build_map tok [] map_dict n = (map_dict, n)"
| "build_map tok ((k, v) # rest) map_dict n =
     (case hash_value tok k n of (h, n') \<Rightarrow> build_map tok rest (map_dict(h \<mapsto> v)) n')"

definition eval_lit_map ::
  "(nat \<Rightarrow> string) \<Rightarrow> (value \<times> value) list option \<Rightarrow> eval_context \<Rightarrow> value \<times> eval_context" where
  "eval_lit_map tok payload state =
     (case payload of
        None \<Rightarrow> (error_val TypeError ''Map value must be array'', state)
      | Some kvs \<Rightarrow>
          (case build_map tok kvs Map.empty (uuid_draws state) of
             (m, n) \<Rightarrow> (MapVal m, state\<lparr>uuid_draws := n\<rparr>)))"

subsection \<open>AIR forms\<close>

definition eval_var :: "string \<Rightarrow> env \<Rightarrow> value" where
  "eval_var name env =
     (case lookup_value env name of
        None \<Rightarrow> error_val UnboundIdentifier (''Unbound identifier: '' @ name)
      | Some v \<Rightarrow> v)"

definition eval_ref :: "string \<Rightarrow> env \<Rightarrow> value" where
  "eval_ref ref_id env =
     (case lookup_value env ref_id of
        Some ref_value \<Rightarrow> ref_value
      | None \<Rightarrow> error_val DomainError
                 (''Ref must be resolved during program evaluation: '' @ ref_id))"

fun is_inline :: "arg \<Rightarrow> bool" where
  "is_inline (Inline _) = True"
| "is_inline (NodeRef _) = False"

text \<open>The text an f-string prints for an operand that is a node reference.\<close>

fun arg_text :: "arg \<Rightarrow> string" where
  "arg_text (NodeRef r) = r"
| "arg_text (Inline _) = ''<expr>''"

text \<open>
  The argument loop of \<^verbatim>\<open>_eval_call\<close>. \<open>Inl v\<close> is the early \<^verbatim>\<open>return v\<close> out of the
  loop, \<open>Inr arg_values\<close> the list the loop has collected.
\<close>

fun eval_call_args ::
  "evaluator \<Rightarrow> env \<Rightarrow> arg list \<Rightarrow> value list \<Rightarrow> eval_context
     \<Rightarrow> (value + value list) outcome \<times> eval_context" where
  "eval_call_args ev env [] arg_values state = (Return (Inr arg_values), state)"
| "eval_call_args ev env (NodeRef a # rest) arg_values state =
     (case lookup_value env a of
        None \<Rightarrow>
          (Return (Inl (error_val UnboundIdentifier (''Unbound identifier: '' @ a))), state)
      | Some v \<Rightarrow> eval_call_args ev env rest (arg_values @ [v]) state)"
| "eval_call_args ev env (Inline e # rest) arg_values state =
     and_then (ev e env state)
       (\<lambda>v state'.
          if is_error v then (Return (Inl v), state')
          else eval_call_args ev env rest (arg_values @ [v]) state')"

definition eval_call ::
  "evaluator \<Rightarrow> registry \<Rightarrow> string \<Rightarrow> string \<Rightarrow> arg list \<Rightarrow> env \<Rightarrow> eval_context
     \<Rightarrow> value outcome \<times> eval_context" where
  "eval_call ev reg ns name args env state =
     (if \<not> list_ex is_inline args
      then (Return (error_val DomainError ''Call must be resolved during program evaluation''),
            state)
      else and_then (eval_call_args ev env args [] state)
        (\<lambda>r state'.
           case r of
             Inl v \<Rightarrow> (Return v, state')
           | Inr arg_values \<Rightarrow>
               (case registry_lookup reg ns name of
                  None \<Rightarrow>
                    (Return (error_val UnknownOperator
                       (''Unknown operator: '' @ ns @ '':'' @ name)), state')
                | Some op \<Rightarrow>
                    if length (op_params op) \<noteq> length arg_values
                    then (Return (error_val ArityError
                            (''Arity mismatch: '' @ str_nat (length (op_params op))
                             @ '' expected, '' @ str_nat (length arg_values) @ '' given'')),
                          state')
                    else (Return (apply_impl op arg_values), state'))))"

text \<open>
  The local helper \<^verbatim>\<open>get_value\<close> of \<^verbatim>\<open>_eval_if\<close> and \<^verbatim>\<open>_eval_let\<close>. It closes over
  the \<^verbatim>\<open>env\<close> parameter of the enclosing method.
\<close>

definition get_value ::
  "evaluator \<Rightarrow> env \<Rightarrow> arg \<Rightarrow> eval_context \<Rightarrow> value option outcome \<times> eval_context" where
  "get_value ev env ref_or_expr state =
     (case ref_or_expr of
        NodeRef r \<Rightarrow> (Return (lookup_value env r), state)
      | Inline e \<Rightarrow> and_then (ev e env state) (\<lambda>v state'. (Return (Some v), state')))"

definition unbound :: "arg \<Rightarrow> value" where
  "unbound a = error_val UnboundIdentifier (''Unbound identifier: '' @ arg_text a)"

fun bool_payload :: "value \<Rightarrow> bool" where
  "bool_payload (BoolVal b) = b"
| "bool_payload _ = False"

definition eval_if ::
  "evaluator \<Rightarrow> arg \<Rightarrow> arg \<Rightarrow> arg \<Rightarrow> env \<Rightarrow> eval_context \<Rightarrow> value outcome \<times> eval_context" where
  "eval_if ev cond then_branch else_branch env state =
     and_then (get_value ev env cond state)
       (\<lambda>cond_value state'.
          case cond_value of
            None \<Rightarrow> (Return (unbound cond), state')
          | Some cv \<Rightarrow>
              if is_error cv then (Return cv, state')
              else if kind cv = ''bool'' \<and> bool_payload cv
              then and_then (get_value ev env then_branch state')
                     (\<lambda>then_value state''.
                        case then_value of
                          None \<Rightarrow> (Return (unbound then_branch), state'')
                        | Some v \<Rightarrow> (Return v, state''))
              else and_then (get_value ev env else_branch state')
                     (\<lambda>else_value state''.
                        case else_value of
                          None \<Rightarrow> (Return (unbound else_branch), state'')
                        | Some v \<Rightarrow> (Return v, state'')))"

text \<open>
  \<^verbatim>\<open>_eval_let\<close> computes \<^verbatim>\<open>extended_env\<close> and then evaluates the body through
  \<^verbatim>\<open>get_value\<close>, which reads \<^verbatim>\<open>env\<close>.
\<close>

definition eval_let ::
  "evaluator \<Rightarrow> string \<Rightarrow> arg \<Rightarrow> arg \<Rightarrow> env \<Rightarrow> eval_context \<Rightarrow> value outcome \<times> eval_context" where
  "eval_let ev name val body env state =
     and_then (get_value ev env val state)
       (\<lambda>value_result state'.
          case value_result of
            None \<Rightarrow> (Return (unbound val), state')
          | Some v \<Rightarrow>
              if is_error v then (Return v, state')
              else (let extended_env = extend_value_env env name v
                    in and_then (get_value ev env body state')
                         (\<lambda>body_result state''.
                            case body_result of
                              None \<Rightarrow> (Return (unbound body), state'')
                            | Some b \<Rightarrow> (Return b, state''))))"

subsection \<open>CIR forms\<close>

text \<open>
  \<^verbatim>\<open>_eval_lambda\<close> stores the lambda expression itself as the closure's body and a copy
  of the bindings as its environment.
\<close>

definition eval_lambda :: "lambda_param list \<Rightarrow> string \<Rightarrow> env \<Rightarrow> value" where
  "eval_lambda params body env = ClosureVal params (LambdaExpr params body) env"

text \<open>The argument loop of \<^verbatim>\<open>_eval_call_expr\<close>: every argument is a name looked up.\<close>

fun lookup_args :: "env \<Rightarrow> string list \<Rightarrow> value list \<Rightarrow> value + value list" where
  "lookup_args env [] arg_values = Inr arg_values"
| "lookup_args env (arg_id # rest) arg_values =
     (case lookup_value env arg_id of
        None \<Rightarrow> Inl (error_val UnboundIdentifier (''Argument not found: '' @ arg_id))
      | Some arg_value \<Rightarrow>
          if is_error arg_value then Inl arg_value
          else lookup_args env rest (arg_values @ [arg_value]))"

definition min_arity :: "lambda_param list \<Rightarrow> nat" where
  "min_arity params = length (filter (\<lambda>p. \<not> param_optional p) params)"

definition max_arity :: "lambda_param list \<Rightarrow> nat" where
  "max_arity params = length params"

text \<open>
  The loop \<^verbatim>\<open>for i, param in enumerate(fn_value["params"])\<close>; \<open>fn_env\<close> is the
  closure's captured environment \<^verbatim>\<open>fn_value["env"]\<close>, \<open>call_env\<close> the environment
  built so far. \<open>Inl v\<close> is the early \<^verbatim>\<open>return v\<close>.
\<close>

fun bind_params ::
  "evaluator \<Rightarrow> env \<Rightarrow> lambda_param list \<Rightarrow> nat \<Rightarrow> value list \<Rightarrow> env \<Rightarrow> eval_context
     \<Rightarrow> (value + env) outcome \<times> eval_context" where
  "bind_params ev fn_env [] i arg_values call_env state = (Return (Inr call_env), state)"
| "bind_params ev fn_env (param # rest) i arg_values call_env state =
     (if i < length arg_values
      then bind_params ev fn_env rest (Suc i) arg_values
             (extend_value_env call_env (param_name param) (arg_values ! i)) state
      else if param_optional param
      then (case param_default param of
              Some default_expr \<Rightarrow>
                and_then (ev default_expr fn_env state)
                  (\<lambda>default_val state'.
                     if is_error default_val then (Return (Inl default_val), state')
                     else bind_params ev fn_env rest (Suc i) arg_values
                            (extend_value_env call_env (param_name param) default_val) state')
            | None \<Rightarrow>
                bind_params ev fn_env rest (Suc i) arg_values
                  (extend_value_env call_env (param_name param) undefined_val) state)
      else (Return (Inl (error_val ArityError
                      (''Missing required parameter: '' @ param_name param))), state))"

definition eval_call_expr ::
  "evaluator \<Rightarrow> string \<Rightarrow> string list \<Rightarrow> env \<Rightarrow> eval_context \<Rightarrow> value outcome \<times> eval_context" where
  "eval_call_expr ev fn args env state =
     (case lookup_value env fn of
        None \<Rightarrow> (Return (error_val UnboundIdentifier (''Function not found: '' @ fn)), state)
      | Some fn_value \<Rightarrow>
          if is_error fn_value then (Return fn_value, state)
          else if \<not> is_closure fn_value
          then (Return (error_val TypeError (''Expected closure, got: '' @ kind fn_value)), state)
          else (case lookup_args env args [] of
                  Inl v \<Rightarrow> (Return v, state)
                | Inr arg_values \<Rightarrow>
                    if length arg_values < min_arity (closure_params fn_value)
                    then (Return (error_val ArityError
                            (''Arity error: expected at least ''
                             @ str_nat (min_arity (closure_params fn_value))
                             @ '' args, got '' @ str_nat (length arg_values))), state)
                    else if length arg_values > max_arity (closure_params fn_value)
                    then (Return (error_val ArityError
                            (''Arity error: expected at most ''
                             @ str_nat (max_arity (closure_params fn_value))
                             @ '' args, got '' @ str_nat (length arg_values))), state)
                    else and_then
                           (bind_params ev (closure_env fn_value) (closure_params fn_value) 0
                              arg_values (closure_env fn_value) state)
                           (\<lambda>r state'.
                              case r of
                                Inl v \<Rightarrow> (Return v, state')
                              | Inr call_env \<Rightarrow> ev (closure_body fn_value) call_env state')))"

text \<open>\<^verbatim>\<open>_eval_fix\<close> extends \<^verbatim>\<open>env\<close>, the environment of the \<^verbatim>\<open>fix\<close> expression.\<close>

definition eval_fix ::
  "evaluator \<Rightarrow> string \<Rightarrow> env \<Rightarrow> eval_context \<Rightarrow> value outcome \<times> eval_context" where
  "eval_fix ev fn env state =
     (case lookup_value env fn of
        None \<Rightarrow> (Return (error_val UnboundIdentifier (''Function not found: '' @ fn)), state)
      | Some fn_value \<Rightarrow>
          if is_error fn_value then (Return fn_value, state)
          else if \<not> is_closure fn_value
          then (Return (error_val TypeError (''Expected closure, got: '' @ kind fn_value)), state)
          else if length (closure_params fn_value) \<noteq> 1
          then (Return (error_val TypeError ''fix requires a single-parameter lambda''), state)
          else (let param_name = param_name (closure_params fn_value ! 0);
                    extended_env = extend_value_env env param_name fn_value
                in ev (closure_body fn_value) extended_env state))"

subsection \<open>EIR forms\<close>

definition eval_seq :: "string \<Rightarrow> string \<Rightarrow> env \<Rightarrow> value" where
  "eval_seq first then_ref env =
     (case lookup_value env first of
        None \<Rightarrow> error_val UnboundIdentifier (''Unbound identifier in seq: '' @ first)
      | Some first_value \<Rightarrow>
          if is_error first_value then first_value
          else (case lookup_value env then_ref of
                  None \<Rightarrow> error_val UnboundIdentifier (''Unbound identifier in seq: '' @ then_ref)
                | Some then_value \<Rightarrow> then_value))"

definition eval_assign :: "string \<Rightarrow> string \<Rightarrow> env \<Rightarrow> value" where
  "eval_assign target value_ref env =
     (case lookup_value env value_ref of
        None \<Rightarrow> error_val UnboundIdentifier (''Unbound identifier in assign: '' @ value_ref)
      | Some value_result \<Rightarrow> if is_error value_result then value_result else VoidVal)"

definition eval_ref_cell :: "string \<Rightarrow> env \<Rightarrow> value" where
  "eval_ref_cell target env =
     (case lookup_value env target of
        None \<Rightarrow> error_val UnboundIdentifier (''Unbound identifier in refCell: '' @ target)
      | Some target_value \<Rightarrow> RefCellVal target_value)"

definition eval_deref :: "string \<Rightarrow> env \<Rightarrow> value" where
  "eval_deref target env =
     (case lookup_value env target of
        None \<Rightarrow> error_val UnboundIdentifier (''Unbound identifier in deref: '' @ target)
      | Some target_value \<Rightarrow>
          if is_error target_value then target_value
          else (case target_value of
                  RefCellVal v \<Rightarrow> v
                | _ \<Rightarrow> error_val TypeError (''Expected refCell, got: '' @ kind target_value)))"

definition eval_try :: "string \<Rightarrow> string \<Rightarrow> string \<Rightarrow> string option \<Rightarrow> env \<Rightarrow> value" where
  "eval_try try_body catch_param catch_body fallback env =
     (case lookup_value env try_body of
        None \<Rightarrow> error_val UnboundIdentifier (''Unbound identifier in try: '' @ try_body)
      | Some try_value \<Rightarrow>
          if is_error try_value
          then (let error_env = extend_value_env env catch_param try_value
                in case lookup_value error_env catch_body of
                     None \<Rightarrow> error_val UnboundIdentifier
                               (''Unbound identifier in catch: '' @ catch_body)
                   | Some catch_value \<Rightarrow> catch_value)
          else (case fallback of
                  Some fb \<Rightarrow>
                    (case lookup_value env fb of
                       None \<Rightarrow> error_val UnboundIdentifier
                                 (''Unbound identifier in fallback: '' @ fb)
                     | Some fallback_value \<Rightarrow> fallback_value)
                | None \<Rightarrow> try_value))"

subsection \<open>Dispatch\<close>

text \<open>
  \<^verbatim>\<open>_eval_expr\<close>: count the step, then dispatch on the kind. \<open>ev\<close> is the recursive
  call \<^verbatim>\<open>self._eval_expr\<close>.
\<close>

definition eval_expr_body ::
  "evaluator \<Rightarrow> (nat \<Rightarrow> string) \<Rightarrow> registry \<Rightarrow> expr \<Rightarrow> env \<Rightarrow> eval_context
     \<Rightarrow> value outcome \<times> eval_context" where
  "eval_expr_body ev tok reg e env state =
     and_then (check_steps state)
       (\<lambda>_ state'.
          case e of
            LitExpr l \<Rightarrow> (Return (eval_lit_prim l), state')
          | LitSetExpr payload \<Rightarrow>
              (case eval_lit_set tok payload state' of (v, state'') \<Rightarrow> (Return v, state''))
          | LitMapExpr payload \<Rightarrow>
              (case eval_lit_map tok payload state' of (v, state'') \<Rightarrow> (Return v, state''))
          | LitOptionExpr payload \<Rightarrow> (Return (OptionVal payload), state')
          | VarExpr name \<Rightarrow> (Return (eval_var name env), state')
          | RefExpr ref_id \<Rightarrow> (Return (eval_ref ref_id env), state')
          | CallExpr ns name args \<Rightarrow> eval_call ev reg ns name args env state'
          | IfExpr c t f \<Rightarrow> eval_if ev c t f env state'
          | LetExpr name val body \<Rightarrow> eval_let ev name val body env state'
          | AirRefExpr ns name args \<Rightarrow>
              (Return (error_val DomainError
                 ''AirRef must be resolved during program evaluation''), state')
          | PredicateExpr name val \<Rightarrow>
              (Return (error_val DomainError
                 ''Predicate must be resolved during program evaluation''), state')
          | LambdaExpr params body \<Rightarrow> (Return (eval_lambda params body env), state')
          | CallFnExpr fn args \<Rightarrow> eval_call_expr ev fn args env state'
          | FixExpr fn \<Rightarrow> eval_fix ev fn env state'
          | EirSeqExpr first then_ref \<Rightarrow> (Return (eval_seq first then_ref env), state')
          | EirAssignExpr target value_ref \<Rightarrow> (Return (eval_assign target value_ref env), state')
          | EirWhileExpr c b \<Rightarrow> (Return VoidVal, state')
          | EirForExpr v i c u b \<Rightarrow> (Return VoidVal, state')
          | EirIterExpr v i b \<Rightarrow> (Return VoidVal, state')
          | EirEffectExpr op args \<Rightarrow> (Return VoidVal, state')
          | EirRefCellExpr target \<Rightarrow> (Return (eval_ref_cell target env), state')
          | EirDerefExpr target \<Rightarrow> (Return (eval_deref target env), state')
          | EirTryExpr tb cp cb fb \<Rightarrow> (Return (eval_try tb cp cb fb env), state')
          | PirExpr k \<Rightarrow>
              (Return (error_val DomainError
                 (''PIR expressions require AsyncEvaluator: '' @ k)), state'))"

primrec eval_expr :: "nat \<Rightarrow> (nat \<Rightarrow> string) \<Rightarrow> registry \<Rightarrow> evaluator" where
  "eval_expr 0 tok reg = (\<lambda>e env state. (OutOfFuel, state))"
| "eval_expr (Suc fuel) tok reg = eval_expr_body (eval_expr fuel tok reg) tok reg"

text \<open>
  \<^verbatim>\<open>Evaluator.evaluate\<close>: a fresh context with \<^verbatim>\<open>steps = 0\<close>. Every nested call of
  \<^verbatim>\<open>_eval_expr\<close> counts a step first, so the nesting is never deeper than
  \<^verbatim>\<open>max_steps + 1\<close>, which is the depth given here (lemma \<open>evaluate_never_out_of_fuel\<close>).
  \<open>draws\<close> is the number of random tokens the host has drawn before the call.
\<close>

record eval_options =
  opt_max_steps :: int
  opt_trace :: bool

definition evaluate ::
  "(nat \<Rightarrow> string) \<Rightarrow> registry \<Rightarrow> expr \<Rightarrow> env \<Rightarrow> eval_options \<Rightarrow> nat
     \<Rightarrow> value outcome \<times> eval_context" where
  "evaluate tok reg e env opts draws =
     eval_expr (Suc (nat (opt_max_steps opts))) tok reg e env
       \<lparr>steps = 0, max_steps = opt_max_steps opts, trace = opt_trace opts, uuid_draws = draws\<rparr>"

definition default_options :: eval_options where
  "default_options = \<lparr>opt_max_steps = 10000, opt_trace = False\<rparr>"

section \<open>The LIR CFG executor (\<^verbatim>\<open>lir/evaluator.py\<close>)\<close>

text \<open>
  Instructions, terminators and blocks as in \<^verbatim>\<open>types.py\<close>. A phi source is the
  dictionary \<^verbatim>\<open>{"block": ..., "id": ...}\<close>. A value is truthy, so \<^verbatim>\<open>if not value\<close>
  after \<^verbatim>\<open>state.vars.get\<close> is the test for an unbound variable; a string is truthy when
  it is not empty.
\<close>

datatype phi_source = PhiSource (src_block: string) (src_id: string)

datatype lir_instruction =
    InsAssign string expr
  | InsCall string string "string list"
  | InsOp string string string "string list"
  | InsPhi string "phi_source list"
  | InsEffect string string "string list"
  | InsAssignRef string string

datatype lir_terminator =
    TermJump string
  | TermBranch string string string
  | TermReturn "string option"
  | TermExit "string option"

record lir_block =
  block_id :: string
  instructions :: "lir_instruction list"
  terminator :: lir_terminator

record effect_op =
  eff_params :: "ty list"
  eff_fn :: "value list \<Rightarrow> impl_result"

type_synonym effect_registry = "string \<Rightarrow> effect_op option"

record lir_state =
  vars :: "string \<Rightarrow> value option"
  return_value :: "value option"
  effects :: "(string \<times> value list) list"
  lir_steps :: int
  lir_max_steps :: int
  predecessor :: "string option"

text \<open>\<^verbatim>\<open>_evaluate_expr\<close>: literals of primitive type and variables only.\<close>

definition lir_evaluate_expr :: "expr \<Rightarrow> (string \<Rightarrow> value option) \<Rightarrow> value" where
  "lir_evaluate_expr e env =
     (case e of
        LitExpr l \<Rightarrow>
          (case l of
             LitBool b \<Rightarrow> BoolVal b
           | LitInt i \<Rightarrow> IntVal i
           | LitFloat f \<Rightarrow> FloatVal f
           | LitString s \<Rightarrow> StringVal s
           | LitVoid \<Rightarrow> VoidVal
           | _ \<Rightarrow> error_val TypeError ''Complex literals not yet supported in LIR'')
      | LitSetExpr _ \<Rightarrow> error_val TypeError ''Complex literals not yet supported in LIR''
      | LitMapExpr _ \<Rightarrow> error_val TypeError ''Complex literals not yet supported in LIR''
      | LitOptionExpr _ \<Rightarrow> error_val TypeError ''Complex literals not yet supported in LIR''
      | VarExpr name \<Rightarrow>
          (case env name of
             None \<Rightarrow> error_val UnboundIdentifier (''Unbound identifier: '' @ name)
           | Some v \<Rightarrow> v)
      | _ \<Rightarrow> error_val DomainError ''Complex expressions not yet supported in LIR'')"

definition execute_assign :: "string \<Rightarrow> expr \<Rightarrow> lir_state \<Rightarrow> value option \<times> lir_state" where
  "execute_assign target e state =
     (let v = lir_evaluate_expr e (vars state)
      in if is_error v then (Some v, state)
         else (None, state\<lparr>vars := (vars state)(target \<mapsto> v)\<rparr>))"

text \<open>
  The operand loop shared by \<^verbatim>\<open>_execute_call\<close>, \<^verbatim>\<open>_execute_op\<close> and
  \<^verbatim>\<open>_execute_effect\<close>: \<open>Inl v\<close> is the early \<^verbatim>\<open>return v\<close>.
\<close>

fun lir_args ::
  "(string \<Rightarrow> value option) \<Rightarrow> string list \<Rightarrow> value list \<Rightarrow> value + value list" where
  "lir_args vs [] arg_values = Inr arg_values"
| "lir_args vs (arg_id # rest) arg_values =
     (case vs arg_id of
        None \<Rightarrow> Inl (error_val UnboundIdentifier (''Argument not found: '' @ arg_id))
      | Some arg_value \<Rightarrow>
          if is_error arg_value then Inl arg_value
          else lir_args vs rest (arg_values @ [arg_value]))"

definition execute_call ::
  "string \<Rightarrow> string list \<Rightarrow> lir_state \<Rightarrow> value option \<times> lir_state" where
  "execute_call target args state =
     (case lir_args (vars state) args [] of
        Inl v \<Rightarrow> (Some v, state)
      | Inr arg_values \<Rightarrow>
          (None, state\<lparr>vars := (vars state)
             (target \<mapsto> error_val DomainError ''Call not yet implemented in LIR'')\<rparr>))"

definition execute_op ::
  "registry \<Rightarrow> string \<Rightarrow> string \<Rightarrow> string \<Rightarrow> string list \<Rightarrow> lir_state
     \<Rightarrow> value option \<times> lir_state" where
  "execute_op reg target ns name args state =
     (case lir_args (vars state) args [] of
        Inl v \<Rightarrow> (Some v, state)
      | Inr arg_values \<Rightarrow>
          (case registry_lookup reg ns name of
             None \<Rightarrow>
               (Some (error_val UnknownOperator (''Unknown operator: '' @ ns @ '':'' @ name)),
                state)
           | Some op \<Rightarrow>
               if length (op_params op) \<noteq> length arg_values
               then (Some (error_val ArityError
                       (''Operator '' @ ns @ '':'' @ name @ '' expects ''
                        @ str_nat (length (op_params op)) @ '' args, got ''
                        @ str_nat (length arg_values))), state)
               else (case op_impl op arg_values of
                       ImplReturn result \<Rightarrow>
                         (None, state\<lparr>vars := (vars state)(target \<mapsto> result)\<rparr>)
                     | ImplSPIRALError c \<Rightarrow> (Some (ErrorVal c None), state)
                     | ImplException msg \<Rightarrow> (Some (error_val DomainError msg), state))))"

text \<open>
  \<^verbatim>\<open>_execute_phi\<close>. The first loop runs when \<^verbatim>\<open>state.predecessor\<close> is a non-empty
  string; both loops stop at the first source that passes their test.
\<close>

fun phi_match_loop ::
  "string \<Rightarrow> (string \<Rightarrow> value option) \<Rightarrow> phi_source list \<Rightarrow> value option" where
  "phi_match_loop pred vs [] = None"
| "phi_match_loop pred vs (source # rest) =
     (if src_block source = pred
      then (case vs (src_id source) of
              Some v \<Rightarrow> if \<not> is_error v then Some v else phi_match_loop pred vs rest
            | None \<Rightarrow> phi_match_loop pred vs rest)
      else phi_match_loop pred vs rest)"

fun phi_fallback_loop :: "(string \<Rightarrow> value option) \<Rightarrow> phi_source list \<Rightarrow> value option" where
  "phi_fallback_loop vs [] = None"
| "phi_fallback_loop vs (source # rest) =
     (case vs (src_id source) of
        Some v \<Rightarrow> if \<not> is_error v then Some v else phi_fallback_loop vs rest
      | None \<Rightarrow> phi_fallback_loop vs rest)"

definition truthy_str :: "string option \<Rightarrow> bool" where
  "truthy_str s = (case s of None \<Rightarrow> False | Some t \<Rightarrow> t \<noteq> [])"

definition execute_phi ::
  "string \<Rightarrow> phi_source list \<Rightarrow> lir_state \<Rightarrow> value option \<times> lir_state" where
  "execute_phi target sources state =
     (let phi_value =
            (if truthy_str (predecessor state)
             then phi_match_loop (the (predecessor state)) (vars state) sources
             else None);
          phi_value' =
            (case phi_value of
               None \<Rightarrow> phi_fallback_loop (vars state) sources
             | Some v \<Rightarrow> Some v)
      in case phi_value' of
           None \<Rightarrow>
             (Some (error_val DomainError (''Phi node has no valid sources: '' @ target)), state)
         | Some v \<Rightarrow> (None, state\<lparr>vars := (vars state)(target \<mapsto> v)\<rparr>))"

definition execute_effect ::
  "effect_registry \<Rightarrow> string \<Rightarrow> string \<Rightarrow> string list \<Rightarrow> lir_state
     \<Rightarrow> value option \<times> lir_state" where
  "execute_effect eff target op args state =
     (case eff op of
        None \<Rightarrow> (Some (error_val UnknownOperator (''Unknown effect operation: '' @ op)), state)
      | Some effect_op \<Rightarrow>
          (case lir_args (vars state) args [] of
             Inl v \<Rightarrow> (Some v, state)
           | Inr arg_values \<Rightarrow>
               if length (eff_params effect_op) \<noteq> length arg_values
               then (Some (error_val ArityError
                       (''Effect '' @ op @ '' expects '' @ str_nat (length (eff_params effect_op))
                        @ '' args, got '' @ str_nat (length arg_values))), state)
               else (let state' = state\<lparr>effects := effects state @ [(op, arg_values)]\<rparr>
                     in case eff_fn effect_op arg_values of
                          ImplReturn result \<Rightarrow>
                            (None, state'\<lparr>vars := (vars state')(target \<mapsto> result)\<rparr>)
                        | ImplSPIRALError c \<Rightarrow> (Some (ErrorVal c None), state')
                        | ImplException msg \<Rightarrow> (Some (error_val DomainError msg), state'))))"

definition execute_assign_ref ::
  "string \<Rightarrow> string \<Rightarrow> lir_state \<Rightarrow> value option \<times> lir_state" where
  "execute_assign_ref target value_id state =
     (case vars state value_id of
        None \<Rightarrow> (Some (error_val UnboundIdentifier (''Value not found: '' @ value_id)), state)
      | Some v \<Rightarrow>
          if is_error v then (Some v, state)
          else (None, state\<lparr>vars := (vars state)((target @ ''_ref'') \<mapsto> v)\<rparr>))"

definition execute_instruction ::
  "registry \<Rightarrow> effect_registry \<Rightarrow> lir_instruction \<Rightarrow> lir_state \<Rightarrow> value option \<times> lir_state" where
  "execute_instruction reg eff ins state =
     (case ins of
        InsAssign target e \<Rightarrow> execute_assign target e state
      | InsCall target callee args \<Rightarrow> execute_call target args state
      | InsOp target ns name args \<Rightarrow> execute_op reg target ns name args state
      | InsPhi target sources \<Rightarrow> execute_phi target sources state
      | InsEffect target op args \<Rightarrow> execute_effect eff target op args state
      | InsAssignRef target value_id \<Rightarrow> execute_assign_ref target value_id state)"

text \<open>\<^verbatim>\<open>_execute_block\<close>: the result is \<open>None\<close> on success and the error value otherwise.\<close>

fun execute_block ::
  "registry \<Rightarrow> effect_registry \<Rightarrow> lir_instruction list \<Rightarrow> lir_state
     \<Rightarrow> value option \<times> lir_state" where
  "execute_block reg eff [] state = (None, state)"
| "execute_block reg eff (ins # rest) state =
     (let state' = state\<lparr>lir_steps := lir_steps state + 1\<rparr>
      in if lir_steps state' > lir_max_steps state'
         then (Some (error_val NonTermination ''Block execution exceeded maximum steps''), state')
         else (case execute_instruction reg eff ins state' of
                 (Some err, state'') \<Rightarrow> (Some err, state'')
               | (None, state'') \<Rightarrow> execute_block reg eff rest state''))"

text \<open>
  \<^verbatim>\<open>_execute_terminator\<close>: \<open>Inl b\<close> is the next block id (a string), \<open>Inr v\<close> a value
  that ends the run.
\<close>

definition execute_terminator :: "lir_terminator \<Rightarrow> lir_state \<Rightarrow> (string + value) \<times> lir_state" where
  "execute_terminator term state =
     (case term of
        TermJump to \<Rightarrow> (Inl to, state)
      | TermBranch cond then_branch else_branch \<Rightarrow>
          (case vars state cond of
             None \<Rightarrow>
               (Inr (error_val UnboundIdentifier (''Condition variable not found: '' @ cond)),
                state)
           | Some cond_value \<Rightarrow>
               if is_error cond_value then (Inr cond_value, state)
               else if kind cond_value \<noteq> ''bool''
               then (Inr (error_val TypeError
                       (''Branch condition must be bool, got: '' @ kind cond_value)), state)
               else (Inl (if bool_payload cond_value then then_branch else else_branch), state))
      | TermReturn val \<Rightarrow>
          if truthy_str val
          then (case vars state (the val) of
                  None \<Rightarrow>
                    (Inr (error_val UnboundIdentifier (''Return value not found: '' @ the val)),
                     state)
                | Some rv \<Rightarrow> (Inr rv, state\<lparr>return_value := Some rv\<rparr>))
          else (Inr VoidVal, state)
      | TermExit code \<Rightarrow>
          if truthy_str code
          then (case vars state (the code) of
                  Some code_value \<Rightarrow> (Inr code_value, state)
                | None \<Rightarrow> (Inr VoidVal, state))
          else (Inr VoidVal, state))"

definition find_block :: "lir_block list \<Rightarrow> string \<Rightarrow> lir_block option" where
  "find_block blocks bid = find (\<lambda>b. block_id b = bid) blocks"

text \<open>
  One pass through the body of the \<^verbatim>\<open>while current_block_id\<close> loop of
  \<^verbatim>\<open>LIREvaluator.evaluate\<close>: \<open>Inl\<close> is a \<^verbatim>\<open>return\<close> out of the loop with the
  result and the state, \<open>Inr\<close> the next block id, the set \<^verbatim>\<open>executed_blocks\<close> and the
  state for the next pass.
\<close>

definition cfg_step ::
  "registry \<Rightarrow> effect_registry \<Rightarrow> lir_block list \<Rightarrow> string \<Rightarrow> string set \<Rightarrow> lir_state
     \<Rightarrow> (value \<times> lir_state) + (string \<times> string set \<times> lir_state)" where
  "cfg_step reg eff blocks current_block_id executed_blocks state =
     (let revisit = (current_block_id \<in> executed_blocks);
          state1 = (if revisit then state\<lparr>lir_steps := lir_steps state + 1\<rparr> else state);
          executed_blocks' =
            (if revisit then executed_blocks else insert current_block_id executed_blocks)
      in if revisit \<and> lir_steps state1 > lir_max_steps state1
         then Inl (error_val NonTermination ''LIR execution exceeded maximum steps'', state1)
         else (case find_block blocks current_block_id of
                 None \<Rightarrow>
                   Inl (error_val ValidationError (''Block not found: '' @ current_block_id),
                        state1)
               | Some current_block \<Rightarrow>
                   (case execute_block reg eff (instructions current_block) state1 of
                      (Some ins_result, state2) \<Rightarrow> Inl (ins_result, state2)
                    | (None, state2) \<Rightarrow>
                        (case execute_terminator (terminator current_block) state2 of
                           (Inr term_result, state3) \<Rightarrow> Inl (term_result, state3)
                         | (Inl next_id, state3) \<Rightarrow>
                             Inr (next_id, executed_blocks',
                                  state3\<lparr>predecessor := Some current_block_id\<rparr>)))))"

subsection \<open>The block loop and its termination\<close>

text \<open>
  What the instructions of a block and a terminator do to the step counter, the limit and
  the predecessor field.
\<close>

lemma execute_instruction_steps:
  "execute_instruction reg eff ins state = (r, state') \<Longrightarrow>
     lir_steps state' = lir_steps state \<and> lir_max_steps state' = lir_max_steps state
     \<and> predecessor state' = predecessor state"
  by (auto simp: execute_instruction_def execute_assign_def execute_call_def execute_op_def
        execute_phi_def execute_effect_def execute_assign_ref_def Let_def
      split: lir_instruction.splits option.splits sum.splits if_splits impl_result.splits)

lemma execute_block_steps:
  "execute_block reg eff inss state = (r, state') \<Longrightarrow>
     lir_steps state \<le> lir_steps state' \<and> lir_steps state' \<le> lir_steps state + int (length inss)
     \<and> lir_max_steps state' = lir_max_steps state \<and> predecessor state' = predecessor state
     \<and> (r = None \<longrightarrow> lir_steps state' = lir_steps state + int (length inss))"
proof (induction inss arbitrary: state)
  case Nil
  then show ?case by simp
next
  case (Cons ins rest)
  let ?s1 = "state\<lparr>lir_steps := lir_steps state + 1\<rparr>"
  show ?case
  proof (cases "lir_steps ?s1 > lir_max_steps ?s1")
    case True
    with Cons.prems show ?thesis by (auto simp: Let_def)
  next
    case False
    obtain r1 s2 where ei: "execute_instruction reg eff ins ?s1 = (r1, s2)"
      by (cases "execute_instruction reg eff ins ?s1")
    from execute_instruction_steps[OF ei]
    have s2: "lir_steps s2 = lir_steps state + 1" "lir_max_steps s2 = lir_max_steps state"
       "predecessor s2 = predecessor state" by simp_all
    show ?thesis
    proof (cases r1)
      case None
      with Cons.prems False ei have "execute_block reg eff rest s2 = (r, state')"
        by (simp add: Let_def)
      from Cons.IH[OF this] s2 show ?thesis by auto
    next
      case (Some err)
      with Cons.prems False ei have "r = Some err" "state' = s2" by (simp_all add: Let_def)
      with s2 show ?thesis by auto
    qed
  qed
qed

lemma execute_terminator_steps:
  "execute_terminator term state = (r, state') \<Longrightarrow>
     lir_steps state' = lir_steps state \<and> lir_max_steps state' = lir_max_steps state
     \<and> predecessor state' = predecessor state \<and> vars state' = vars state"
  by (auto simp: execute_terminator_def split: lir_terminator.splits option.splits if_splits)

text \<open>
  The loop ends: a pass either enters a block of the node for the first time, or counts a
  step below the limit; the instructions of a block never lower the step counter.
\<close>

definition cfg_measure :: "lir_block list \<Rightarrow> string set \<Rightarrow> lir_state \<Rightarrow> nat" where
  "cfg_measure blocks executed_blocks state =
     card (block_id ` set blocks - executed_blocks)
     + nat (lir_max_steps state + 1 - lir_steps state)"

lemma find_block_Some: "find_block blocks b = Some blk \<Longrightarrow> b \<in> block_id ` set blocks"
  by (auto simp: find_block_def find_Some_iff)

lemma cfg_step_decreases:
  assumes "cfg_step reg eff blocks cur ex state = Inr (next_id, ex', state')"
  shows "cfg_measure blocks ex' state' < cfg_measure blocks ex state"
proof -
  let ?s1 = "if cur \<in> ex then state\<lparr>lir_steps := lir_steps state + 1\<rparr> else state"
  from assms obtain blk where fb: "find_block blocks cur = Some blk"
    by (auto simp: cfg_step_def Let_def split: option.splits if_splits)
  from assms fb obtain s2 where eb: "execute_block reg eff (instructions blk) ?s1 = (None, s2)"
    by (auto simp: cfg_step_def Let_def split: option.splits if_splits prod.splits sum.splits)
  from assms fb eb obtain s3 where et: "execute_terminator (terminator blk) s2 = (Inl next_id, s3)"
    and st': "state' = s3\<lparr>predecessor := Some cur\<rparr>"
    and ex': "ex' = (if cur \<in> ex then ex else insert cur ex)"
    and nover: "\<not> (cur \<in> ex \<and> lir_steps ?s1 > lir_max_steps ?s1)"
    by (auto simp: cfg_step_def Let_def split: option.splits if_splits prod.splits sum.splits)
  from execute_block_steps[OF eb] execute_terminator_steps[OF et] st'
  have steps: "lir_steps ?s1 \<le> lir_steps state'" and mx: "lir_max_steps state' = lir_max_steps state"
    by (auto split: if_splits)
  have fin: "finite (block_id ` set blocks - ex)" by simp
  show ?thesis
  proof (cases "cur \<in> ex")
    case True
    with nover have "lir_steps state + 1 \<le> lir_max_steps state" by simp
    moreover from True steps have "lir_steps state + 1 \<le> lir_steps state'" by simp
    ultimately show ?thesis using True ex' mx by (simp add: cfg_measure_def)
  next
    case False
    from find_block_Some[OF fb] False have mem: "cur \<in> block_id ` set blocks - ex" by simp
    have eq: "block_id ` set blocks - insert cur ex = (block_id ` set blocks - ex) - {cur}" by auto
    have "card ((block_id ` set blocks - ex) - {cur}) < card (block_id ` set blocks - ex)"
      using fin mem by (rule card_Diff1_less)
    with eq have "card (block_id ` set blocks - insert cur ex) < card (block_id ` set blocks - ex)"
      by simp
    moreover from False steps have "lir_steps state \<le> lir_steps state'" by simp
    ultimately show ?thesis using False ex' mx by (simp add: cfg_measure_def)
  qed
qed

text \<open>
  The \<^verbatim>\<open>while current_block_id\<close> loop; it ends without a \<^verbatim>\<open>return\<close> when the next
  block id is the empty string.
\<close>

function cfg_loop ::
  "registry \<Rightarrow> effect_registry \<Rightarrow> lir_block list \<Rightarrow> string \<Rightarrow> string set \<Rightarrow> lir_state
     \<Rightarrow> value \<times> lir_state" where
  "cfg_loop reg eff blocks current_block_id executed_blocks state =
     (if current_block_id = []
      then (case return_value state of Some v \<Rightarrow> (v, state) | None \<Rightarrow> (VoidVal, state))
      else (case cfg_step reg eff blocks current_block_id executed_blocks state of
              Inl result \<Rightarrow> result
            | Inr (next_id, executed_blocks', state') \<Rightarrow>
                cfg_loop reg eff blocks next_id executed_blocks' state'))"
  by pat_completeness auto
termination
  by (relation "measure (\<lambda>(reg, eff, blocks, cur, ex, state). cfg_measure blocks ex state)")
     (auto dest: cfg_step_decreases)

declare cfg_loop.simps [simp del]


text \<open>
  The part of \<^verbatim>\<open>LIREvaluator.evaluate\<close> that runs the CFG of a block node: a fresh
  state over the inputs, the check that the entry block exists, then the loop.
\<close>

definition initial_lir_state :: "(string \<Rightarrow> value option) \<Rightarrow> int \<Rightarrow> lir_state" where
  "initial_lir_state inputs limit =
     \<lparr>vars = inputs, return_value = None, effects = [], lir_steps = 0,
      lir_max_steps = limit, predecessor = None\<rparr>"

definition execute_cfg ::
  "registry \<Rightarrow> effect_registry \<Rightarrow> int \<Rightarrow> (string \<Rightarrow> value option) \<Rightarrow> lir_block list \<Rightarrow> string
     \<Rightarrow> value \<times> lir_state" where
  "execute_cfg reg eff limit inputs blocks entry =
     (case find_block blocks entry of
        None \<Rightarrow>
          (error_val ValidationError (''Entry block not found: '' @ entry),
           initial_lir_state inputs limit)
      | Some entry_block \<Rightarrow>
          cfg_loop reg eff blocks entry {} (initial_lir_state inputs limit))"

section \<open>The race detector (\<^verbatim>\<open>detectors.py\<close>)\<close>

text \<open>
  \<^verbatim>\<open>self.accesses\<close> is a dictionary from a location to the list of its accesses;
  \<^verbatim>\<open>detect_races\<close> iterates over it in insertion order, so it is an association list
  here, updated in place or extended at the end. The clock reading of
  \<^verbatim>\<open>record_access\<close> is a parameter.
\<close>

datatype access_type = Read | Write

record memory_access =
  task_id :: string
  location :: string
  acc_type :: access_type
  acc_value :: "value"
  timestamp :: pyfloat
  happens_before :: "string set"

record race_condition =
  rc_location :: string
  rc_tasks :: "string \<times> string"
  rc_access_types :: "access_type \<times> access_type"
  conflict_type :: string
  description :: string

record detection_options =
  enable_race_detection :: bool
  enable_deadlock_detection :: bool
  deadlock_timeout :: int
  detailed_race_reports :: bool
  auto_detect :: bool

record race_detector =
  rd_options :: detection_options
  accesses :: "(string \<times> memory_access list) list"
  sync_points :: "string \<Rightarrow> string set option"
  access_counter :: nat

definition new_race_detector :: "detection_options \<Rightarrow> race_detector" where
  "new_race_detector opts =
     \<lparr>rd_options = opts, accesses = [], sync_points = Map.empty, access_counter = 0\<rparr>"

text \<open>
  \<^verbatim>\<open>record_access\<close>. With \<^verbatim>\<open>auto_detect\<close> it also calls \<^verbatim>\<open>detect_races\<close> and logs
  a warning, which changes nothing in the detector.
\<close>

definition record_access ::
  "race_detector \<Rightarrow> string \<Rightarrow> string \<Rightarrow> access_type \<Rightarrow> value \<Rightarrow> pyfloat \<Rightarrow> race_detector" where
  "record_access d tid loc ty v now =
     (if \<not> enable_race_detection (rd_options d) then d
      else (let access = \<lparr>task_id = tid, location = loc, acc_type = ty, acc_value = v,
                           timestamp = now,
                           happens_before =
                             (case sync_points d tid of Some hb \<Rightarrow> hb | None \<Rightarrow> {})\<rparr>;
                existing = (case map_of (accesses d) loc of Some l \<Rightarrow> l | None \<Rightarrow> [])
            in d\<lparr>accesses := AList.update loc (existing @ [access]) (accesses d),
                 access_counter := access_counter d + 1\<rparr>))"

definition record_sync_point :: "race_detector \<Rightarrow> string \<Rightarrow> string list \<Rightarrow> race_detector" where
  "record_sync_point d tid sync_task_ids =
     (if \<not> enable_race_detection (rd_options d) then d
      else d\<lparr>sync_points := (sync_points d)
                (tid \<mapsto> (case sync_points d tid of Some hb \<Rightarrow> hb | None \<Rightarrow> {})
                          \<union> set sync_task_ids)\<rparr>)"

definition has_happens_before :: "memory_access \<Rightarrow> memory_access \<Rightarrow> bool" where
  "has_happens_before access1 access2 =
     (if task_id access2 \<in> happens_before access1 then True
      else if task_id access1 \<in> happens_before access2 then True
      else (\<exists>ancestor_id \<in> happens_before access1. ancestor_id \<in> happens_before access2))"

definition get_conflict_type :: "memory_access \<Rightarrow> memory_access \<Rightarrow> string option" where
  "get_conflict_type access1 access2 =
     (if acc_type access1 = Write \<and> acc_type access2 = Write then Some ''W-W''
      else if acc_type access1 = Write \<and> acc_type access2 = Read then Some ''W-R''
      else if acc_type access1 = Read \<and> acc_type access2 = Write then Some ''R-W''
      else None)"

fun access_type_text :: "access_type \<Rightarrow> string" where
  "access_type_text Read = ''read''"
| "access_type_text Write = ''write''"

definition generate_race_description ::
  "string \<Rightarrow> string \<Rightarrow> string \<Rightarrow> access_type \<Rightarrow> access_type \<Rightarrow> string" where
  "generate_race_description loc task1 task2 type1 type2 =
     ''Potential data race at location \"'' @ loc @ ''\": task \"'' @ task1 @ ''\" performs ''
     @ access_type_text type1 @ '' and task \"'' @ task2 @ ''\" performs ''
     @ access_type_text type2
     @ '' without happens-before ordering. This could lead to undefined behavior.''"

definition check_pair_for_race ::
  "string \<Rightarrow> memory_access \<Rightarrow> memory_access \<Rightarrow> race_condition option" where
  "check_pair_for_race loc access1 access2 =
     (if task_id access1 = task_id access2 then None
      else if has_happens_before access1 access2 then None
      else (case get_conflict_type access1 access2 of
              None \<Rightarrow> None
            | Some ct \<Rightarrow>
                Some \<lparr>rc_location = loc,
                      rc_tasks = (task_id access1, task_id access2),
                      rc_access_types = (acc_type access1, acc_type access2),
                      conflict_type = ct,
                      description = generate_race_description loc (task_id access1)
                        (task_id access2) (acc_type access1) (acc_type access2)\<rparr>))"

text \<open>
  The nested loops \<^verbatim>\<open>for i in range(len(accesses)): for j in range(i + 1, ...)\<close>:
  \<open>races_from\<close> is the inner loop for one \<open>access1\<close>, \<open>location_races\<close> the outer one.
\<close>

fun races_from :: "string \<Rightarrow> memory_access \<Rightarrow> memory_access list \<Rightarrow> race_condition list" where
  "races_from loc access1 [] = []"
| "races_from loc access1 (access2 # rest) =
     (case check_pair_for_race loc access1 access2 of
        None \<Rightarrow> races_from loc access1 rest
      | Some race \<Rightarrow> race # races_from loc access1 rest)"

fun location_races :: "string \<Rightarrow> memory_access list \<Rightarrow> race_condition list" where
  "location_races loc [] = []"
| "location_races loc (access1 # rest) = races_from loc access1 rest @ location_races loc rest"

definition detect_races :: "race_detector \<Rightarrow> race_condition list" where
  "detect_races d =
     (if \<not> enable_race_detection (rd_options d) then []
      else concat (map (\<lambda>(loc, accs). location_races loc accs) (accesses d)))"

text \<open>A detector session: the calls made on a fresh detector, in order.\<close>

datatype detector_call =
    RecordAccess string string access_type "value" pyfloat
  | RecordSyncPoint string "string list"

fun apply_call :: "race_detector \<Rightarrow> detector_call \<Rightarrow> race_detector" where
  "apply_call d (RecordAccess tid loc ty v now) = record_access d tid loc ty v now"
| "apply_call d (RecordSyncPoint tid ids) = record_sync_point d tid ids"

definition detector_session :: "detection_options \<Rightarrow> detector_call list \<Rightarrow> race_detector" where
  "detector_session opts calls = foldl apply_call (new_race_detector opts) calls"

section \<open>The default task scheduler (\<^verbatim>\<open>scheduler.py\<close>)\<close>

text \<open>
  \<^verbatim>\<open>self._tasks\<close> maps a task id to a \<^verbatim>\<open>Task\<close> object. The coroutine
  \<^verbatim>\<open>run_task\<close> started by \<^verbatim>\<open>spawn\<close> keeps its own reference to that object and
  writes to it when the body ends, also after the table entry was replaced or deleted, so
  the objects live in a store of their own (\<open>task_store\<close>, by address) and the table
  holds addresses. The body of a task is host code: that it returns a value, or raises,
  is an event on the object (\<open>task_returned\<close>, \<open>task_raised\<close>).
\<close>

datatype task_status = PENDING | COMPLETED | FAILED

datatype future_state = FutPending | FutResult "value" | FutException string | FutCancelled

record task =
  tk_task_id :: string
  tk_future :: future_state
  tk_status :: task_status
  tk_result :: "value option"

record scheduler =
  tasks :: "string \<Rightarrow> nat option"
  task_store :: "nat \<Rightarrow> task option"
  next_address :: nat
  global_steps :: int
  global_max_steps :: int
  yield_interval :: int
  current_task_id :: string

definition new_scheduler :: "int \<Rightarrow> int \<Rightarrow> scheduler" where
  "new_scheduler limit interval =
     \<lparr>tasks = Map.empty, task_store = Map.empty, next_address = 0, global_steps = 0,
      global_max_steps = limit, yield_interval = interval, current_task_id = ''main''\<rparr>"

definition future_done :: "future_state \<Rightarrow> bool" where
  "future_done f = (f \<noteq> FutPending)"

definition spawn :: "scheduler \<Rightarrow> string \<Rightarrow> scheduler" where
  "spawn s tid =
     (let a = next_address s;
          t = \<lparr>tk_task_id = tid, tk_future = FutPending, tk_status = PENDING, tk_result = None\<rparr>
      in s\<lparr>task_store := (task_store s)(a \<mapsto> t), tasks := (tasks s)(tid \<mapsto> a),
           next_address := Suc a\<rparr>)"

text \<open>The two ways \<^verbatim>\<open>run_task\<close> ends, for the task object at address \<open>a\<close>.\<close>

definition task_returned :: "scheduler \<Rightarrow> nat \<Rightarrow> value \<Rightarrow> scheduler" where
  "task_returned s a v =
     (case task_store s a of
        None \<Rightarrow> s
      | Some t \<Rightarrow>
          s\<lparr>task_store := (task_store s)
               (a \<mapsto> t\<lparr>tk_status := COMPLETED, tk_result := Some v,
                        tk_future := (if \<not> future_done (tk_future t) then FutResult v
                                      else tk_future t)\<rparr>)\<rparr>)"

definition task_raised :: "scheduler \<Rightarrow> nat \<Rightarrow> string \<Rightarrow> scheduler" where
  "task_raised s a err =
     (case task_store s a of
        None \<Rightarrow> s
      | Some t \<Rightarrow>
          s\<lparr>task_store := (task_store s)
               (a \<mapsto> t\<lparr>tk_status := FAILED,
                        tk_future := (if \<not> future_done (tk_future t) then FutException err
                                      else tk_future t)\<rparr>)\<rparr>)"

definition cancel :: "scheduler \<Rightarrow> string \<Rightarrow> scheduler" where
  "cancel s tid =
     (case tasks s tid of
        None \<Rightarrow> s
      | Some a \<Rightarrow>
          (case task_store s a of
             None \<Rightarrow> s\<lparr>tasks := (tasks s)(tid := None)\<rparr>
           | Some t \<Rightarrow>
               s\<lparr>task_store := (task_store s)
                    (a \<mapsto> t\<lparr>tk_status := FAILED,
                             tk_future := (if \<not> future_done (tk_future t) then FutCancelled
                                           else tk_future t)\<rparr>),
                  tasks := (tasks s)(tid := None)\<rparr>))"

definition is_complete :: "scheduler \<Rightarrow> string \<Rightarrow> bool" where
  "is_complete s tid =
     (case tasks s tid of
        None \<Rightarrow> True
      | Some a \<Rightarrow>
          (case task_store s a of
             None \<Rightarrow> True
           | Some t \<Rightarrow> tk_status t = COMPLETED \<or> tk_status t = FAILED))"

text \<open>A scheduler session: the calls and task endings that happen to a new scheduler.\<close>

datatype scheduler_event =
    Spawn string
  | TaskReturned nat "value"
  | TaskRaised nat string
  | Cancel string

fun apply_event :: "scheduler \<Rightarrow> scheduler_event \<Rightarrow> scheduler" where
  "apply_event s (Spawn tid) = spawn s tid"
| "apply_event s (TaskReturned a v) = task_returned s a v"
| "apply_event s (TaskRaised a err) = task_raised s a err"
| "apply_event s (Cancel tid) = cancel s tid"

definition scheduler_session :: "scheduler_event list \<Rightarrow> scheduler" where
  "scheduler_session events = foldl apply_event (new_scheduler 1000000 100) events"

section \<open>Example inputs\<close>

text \<open>A let whose body reads the bound name, and an if whose condition is an integer.\<close>

definition let_example :: expr where
  "let_example = LetExpr ''x'' (Inline (LitExpr (LitInt 1))) (Inline (VarExpr ''x''))"

definition if_example :: expr where
  "if_example =
     IfExpr (Inline (LitExpr (LitInt 1))) (Inline (LitExpr (LitInt 10)))
       (Inline (LitExpr (LitInt 20)))"



text \<open>
  A registry with one binary operator whose implementation returns the list of the
  operands it was called with, and a call whose first operand is a node reference bound
  to an error value.
\<close>

definition listing_op :: operator where
  "listing_op =
     \<lparr>op_ns = ''core'', op_name = ''pair'', op_params = [IntType, IntType],
      op_returns = OtherType ''list'', op_pure = True,
      op_impl = (\<lambda>vs. ImplReturn (ListVal vs))\<rparr>"

definition call_registry :: registry where
  "call_registry = [''core:pair'' \<mapsto> listing_op]"

definition call_example_env :: env where
  "call_example_env = [''x'' \<mapsto> ErrorVal DivideByZero None]"

definition call_example :: expr where
  "call_example = CallExpr ''core'' ''pair'' [NodeRef ''x'', Inline (LitExpr (LitInt 1))]"

text \<open>Two tasks write the location \<open>L\<close> with no synchronisation between them.\<close>

definition ww_calls :: "detector_call list" where
  "ww_calls = [RecordAccess ''t1'' ''L'' Write (IntVal 1) (PyFloat ''1.0''),
               RecordAccess ''t2'' ''L'' Write (IntVal 2) (PyFloat ''2.0'')]"

definition on_options :: detection_options where
  "on_options = \<lparr>enable_race_detection = True, enable_deadlock_detection = True,
     deadlock_timeout = 5000, detailed_race_reports = True, auto_detect = False\<rparr>"

definition ww_race :: race_condition where
  "ww_race =
     \<lparr>rc_location = ''L'', rc_tasks = (''t1'', ''t2''), rc_access_types = (Write, Write),
      conflict_type = ''W-W'',
      description = generate_race_description ''L'' ''t1'' ''t2'' Write Write\<rparr>"

lemmas race_simps = detect_races_def detector_session_def new_race_detector_def record_access_def
  record_sync_point_def check_pair_for_race_def has_happens_before_def get_conflict_type_def
  generate_race_description_def


text \<open>The task ids spawned in a scheduler session.\<close>

fun spawned_ids :: "scheduler_event list \<Rightarrow> string list" where
  "spawned_ids [] = []"
| "spawned_ids (Spawn tid # rest) = tid # spawned_ids rest"
| "spawned_ids (_ # rest) = spawned_ids rest"







text \<open>
  A block that sets \<open>i\<close> and jumps to a block that merges \<open>i\<close> and \<open>n\<close> in a phi and
  jumps to itself; the state after the first block under the limit 3.
\<close>

definition loop_blocks :: "lir_block list" where
  "loop_blocks =
     [\<lparr>block_id = ''b0'', instructions = [InsAssign ''i'' (LitExpr (LitInt 5))],
        terminator = TermJump ''b1''\<rparr>,
      \<lparr>block_id = ''b1'',
        instructions = [InsPhi ''n'' [PhiSource ''b0'' ''i'', PhiSource ''b1'' ''n'']],
        terminator = TermJump ''b1''\<rparr>]"

definition after_b0 :: lir_state where
  "after_b0 =
     \<lparr>vars = [''i'' \<mapsto> IntVal 5], return_value = None, effects = [], lir_steps = 1,
      lir_max_steps = 3, predecessor = Some ''b0''\<rparr>"




text \<open>Two writes of different tasks to one location, as the detector files them, and a
  CFG state whose second and third variables hold errors.\<close>

definition ww_accesses :: "memory_access list" where
  "ww_accesses =
     [\<lparr>task_id = ''t1'', location = ''L'', acc_type = Write, acc_value = IntVal 1,
        timestamp = PyFloat ''1.0'', happens_before = {}\<rparr>,
      \<lparr>task_id = ''t2'', location = ''L'', acc_type = Write, acc_value = IntVal 2,
        timestamp = PyFloat ''2.0'', happens_before = {}\<rparr>]"

definition op_state :: lir_state where
  "op_state =
     \<lparr>vars = [''a'' \<mapsto> IntVal 1, ''b'' \<mapsto> ErrorVal DivideByZero None,
              ''c'' \<mapsto> ErrorVal TypeError None],
      return_value = None, effects = [], lir_steps = 0, lir_max_steps = 10000,
      predecessor = None\<rparr>"

section \<open>Evaluating concrete expressions\<close>



lemma eval_expr_numeral:
  "eval_expr (numeral k) tok reg e env state =
     eval_expr_body (eval_expr (pred_numeral k) tok reg) tok reg e env state"
  by (simp add: numeral_eq_Suc)

lemmas eval_simps = evaluate_def default_options_def eval_expr_numeral eval_expr_body_def
  check_steps_def and_then_def get_value_def eval_lit_prim_def is_error_def is_closure_def
  extend_value_env_def eval_var_def lookup_value_def error_val_def unbound_def

lemmas lir_simps = execute_cfg_def find_block_def cfg_loop.simps cfg_step_def
  initial_lir_state_def execute_terminator_def truthy_str_def execute_instruction_def
  execute_assign_def lir_evaluate_expr_def execute_phi_def is_error_def error_val_def Let_def

section \<open>The evaluator ends within the step limit\<close>

text \<open>
  \<open>within rs s\<close>: the call that started in context \<open>s\<close> and ended with \<open>rs\<close> did not
  run out of depth, did not lower the step counter and kept the limit. \<open>sound_ev ev M k\<close>:
  the evaluator \<open>ev\<close> is within, from every context with limit \<open>M\<close> and at least \<open>k\<close>
  steps counted.
\<close>

definition within :: "'a outcome \<times> eval_context \<Rightarrow> eval_context \<Rightarrow> bool" where
  "within rs s =
     (fst rs \<noteq> OutOfFuel \<and> steps s \<le> steps (snd rs) \<and> max_steps (snd rs) = max_steps s)"

definition sound_ev :: "evaluator \<Rightarrow> int \<Rightarrow> int \<Rightarrow> bool" where
  "sound_ev ev M k =
     (\<forall>e env s. max_steps s = M \<longrightarrow> k \<le> steps s \<longrightarrow> within (ev e env s) s)"

lemma within_Return [simp]: "within (Return x, s) s"
  by (simp add: within_def)

lemma within_and_then:
  assumes "within m s"
    and "\<And>x s1. m = (Return x, s1) \<Longrightarrow> within (k x s1) s1"
  shows "within (and_then m k) s"
proof (cases m)
  case (Pair r s1)
  show ?thesis
  proof (cases r)
    case (Return x)
    with Pair assms(2)[of x s1] assms(1) show ?thesis
      by (auto simp: and_then_def within_def)
  next
    case (Raise c msg)
    with Pair assms(1) show ?thesis by (simp add: and_then_def within_def)
  next
    case OutOfFuel
    with Pair assms(1) show ?thesis by (simp add: within_def)
  qed
qed

lemma sound_evD:
  "sound_ev ev M k \<Longrightarrow> max_steps s = M \<Longrightarrow> k \<le> steps s \<Longrightarrow> within (ev e env s) s"
  by (simp add: sound_ev_def)

lemma within_later:
  "within m s \<Longrightarrow> m = (r, s1) \<Longrightarrow> max_steps s1 = max_steps s \<and> steps s \<le> steps s1"
  by (simp add: within_def)

lemma get_value_within:
  assumes "sound_ev ev M k" "max_steps s = M" "k \<le> steps s"
  shows "within (get_value ev env a s) s"
proof (cases a)
  case (NodeRef r)
  then show ?thesis by (simp add: get_value_def)
next
  case (Inline e)
  have "within (and_then (ev e env s) (\<lambda>v s'. (Return (Some v), s'))) s"
    by (rule within_and_then[OF sound_evD[OF assms]]) simp
  with Inline show ?thesis by (simp add: get_value_def)
qed

lemma eval_call_args_within:
  assumes "sound_ev ev M k"
  shows "max_steps s = M \<Longrightarrow> k \<le> steps s \<Longrightarrow> within (eval_call_args ev env args acc s) s"
proof (induction args arbitrary: acc s)
  case Nil
  then show ?case by simp
next
  case (Cons a args)
  show ?case
  proof (cases a)
    case (NodeRef r)
    with Cons show ?thesis by (auto split: option.splits)
  next
    case (Inline e)
    have "within (and_then (ev e env s)
       (\<lambda>v state'. if is_error v then (Return (Inl v), state')
          else eval_call_args ev env args (acc @ [v]) state')) s"
    proof (rule within_and_then[OF sound_evD[OF assms Cons.prems]])
      fix x s1 assume e: "ev e env s = (Return x, s1)"
      from within_later[OF sound_evD[OF assms Cons.prems, of e env] e] Cons.prems
      have "max_steps s1 = M" "k \<le> steps s1" by auto
      from Cons.IH[OF this] show "within (if is_error x then (Return (Inl x), s1)
          else eval_call_args ev env args (acc @ [x]) s1) s1" by simp
    qed
    with Inline show ?thesis by simp
  qed
qed

lemma eval_call_within:
  assumes "sound_ev ev M k" "max_steps s = M" "k \<le> steps s"
  shows "within (eval_call ev reg ns name args env s) s"
proof (cases "list_ex is_inline args")
  case False
  then show ?thesis by (simp add: eval_call_def)
next
  case True
  have "within (and_then (eval_call_args ev env args [] s)
        (\<lambda>r state'.
           case r of
             Inl v \<Rightarrow> (Return v, state')
           | Inr arg_values \<Rightarrow>
               (case registry_lookup reg ns name of
                  None \<Rightarrow>
                    (Return (error_val UnknownOperator
                       (''Unknown operator: '' @ ns @ '':'' @ name)), state')
                | Some op \<Rightarrow>
                    if length (op_params op) \<noteq> length arg_values
                    then (Return (error_val ArityError
                            (''Arity mismatch: '' @ str_nat (length (op_params op))
                             @ '' expected, '' @ str_nat (length arg_values) @ '' given'')),
                          state')
                    else (Return (apply_impl op arg_values), state')))) s"
    by (rule within_and_then[OF eval_call_args_within[OF assms]])
       (auto split: sum.splits option.splits)
  with True show ?thesis by (simp add: eval_call_def)
qed

lemma branch_within:
  assumes "sound_ev ev M k" "max_steps s = M" "k \<le> steps s"
  shows "within (and_then (get_value ev env a s)
            (\<lambda>r s'. case r of None \<Rightarrow> (Return (unbound a), s') | Some v \<Rightarrow> (Return v, s'))) s"
  by (rule within_and_then[OF get_value_within[OF assms]]) (auto split: option.splits)

lemma eval_if_within:
  assumes "sound_ev ev M k" "max_steps s = M" "k \<le> steps s"
  shows "within (eval_if ev c t f env s) s"
  unfolding eval_if_def
proof (rule within_and_then[OF get_value_within[OF assms]])
  fix x s1 assume g: "get_value ev env c s = (Return x, s1)"
  from get_value_within[OF assms, of env c] g assms
  have s1: "max_steps s1 = M" "k \<le> steps s1" by (auto simp: within_def)
  show "within (case x of
            None \<Rightarrow> (Return (unbound c), s1)
          | Some cv \<Rightarrow>
              if is_error cv then (Return cv, s1)
              else if kind cv = ''bool'' \<and> bool_payload cv
              then and_then (get_value ev env t s1)
                     (\<lambda>then_value state''.
                        case then_value of
                          None \<Rightarrow> (Return (unbound t), state'')
                        | Some v \<Rightarrow> (Return v, state''))
              else and_then (get_value ev env f s1)
                     (\<lambda>else_value state''.
                        case else_value of
                          None \<Rightarrow> (Return (unbound f), state'')
                        | Some v \<Rightarrow> (Return v, state''))) s1"
    using branch_within[OF assms(1) s1] by (auto split: option.splits)
qed

lemma eval_let_within:
  assumes "sound_ev ev M k" "max_steps s = M" "k \<le> steps s"
  shows "within (eval_let ev name val body env s) s"
  unfolding eval_let_def
proof (rule within_and_then[OF get_value_within[OF assms]])
  fix x s1 assume g: "get_value ev env val s = (Return x, s1)"
  from get_value_within[OF assms, of env val] g assms
  have s1: "max_steps s1 = M" "k \<le> steps s1" by (auto simp: within_def)
  show "within (case x of
            None \<Rightarrow> (Return (unbound val), s1)
          | Some v \<Rightarrow>
              if is_error v then (Return v, s1)
              else (let extended_env = extend_value_env env name v
                    in and_then (get_value ev env body s1)
                         (\<lambda>body_result state''.
                            case body_result of
                              None \<Rightarrow> (Return (unbound body), state'')
                            | Some b \<Rightarrow> (Return b, state'')))) s1"
    using branch_within[OF assms(1) s1] by (auto split: option.splits simp: Let_def)
qed

lemma bind_params_within:
  assumes "sound_ev ev M k"
  shows "max_steps s = M \<Longrightarrow> k \<le> steps s \<Longrightarrow>
     within (bind_params ev fn_env ps i arg_values cenv s) s"
proof (induction ps arbitrary: i cenv s)
  case Nil
  then show ?case by simp
next
  case (Cons p ps)
  show ?case
  proof (cases "\<not> i < length arg_values \<and> param_optional p \<and> param_default p \<noteq> None")
    case False
    with Cons show ?thesis by (auto split: option.splits)
  next
    case True
    then obtain d where d: "param_default p = Some d" by auto
    have "within (and_then (ev d fn_env s)
                  (\<lambda>default_val state'.
                     if is_error default_val then (Return (Inl default_val), state')
                     else bind_params ev fn_env ps (Suc i) arg_values
                            (extend_value_env cenv (param_name p) default_val) state')) s"
    proof (rule within_and_then[OF sound_evD[OF assms Cons.prems]])
      fix x s1 assume e: "ev d fn_env s = (Return x, s1)"
      from within_later[OF sound_evD[OF assms Cons.prems, of d fn_env] e] Cons.prems
      have "max_steps s1 = M" "k \<le> steps s1" by auto
      from Cons.IH[OF this] show "within (if is_error x then (Return (Inl x), s1)
           else bind_params ev fn_env ps (Suc i) arg_values
                  (extend_value_env cenv (param_name p) x) s1) s1" by simp
    qed
    with True d show ?thesis by simp
  qed
qed

lemma eval_call_expr_within:
  assumes "sound_ev ev M k" "max_steps s = M" "k \<le> steps s"
  shows "within (eval_call_expr ev fn args env s) s"
proof -
  have b: "\<And>fv arg_values. within (and_then
                           (bind_params ev (closure_env fv) (closure_params fv) 0
                              arg_values (closure_env fv) s)
                           (\<lambda>r state'.
                              case r of
                                Inl v \<Rightarrow> (Return v, state')
                              | Inr call_env \<Rightarrow> ev (closure_body fv) call_env state')) s"
  proof (rule within_and_then[OF bind_params_within[OF assms]])
    fix fv arg_values x s1
    assume e: "bind_params ev (closure_env fv) (closure_params fv) 0 arg_values (closure_env fv) s
        = (Return x, s1)"
    from bind_params_within[OF assms, of "closure_env fv" "closure_params fv" 0 arg_values "closure_env fv"] e assms
    have s1: "max_steps s1 = M" "k \<le> steps s1" by (auto simp: within_def)
    show "within (case x of Inl v \<Rightarrow> (Return v, s1)
          | Inr call_env \<Rightarrow> ev (closure_body fv) call_env s1) s1"
      using sound_evD[OF assms(1) s1] by (auto split: sum.splits)
  qed
  show ?thesis unfolding eval_call_expr_def
    using b by (auto split: option.splits sum.splits)
qed

lemma eval_fix_within:
  assumes "sound_ev ev M k" "max_steps s = M" "k \<le> steps s"
  shows "within (eval_fix ev fn env s) s"
  unfolding eval_fix_def
  using sound_evD[OF assms] by (auto split: option.splits simp: Let_def)

lemma eval_lit_set_ctx:
  "eval_lit_set tok payload s = (v, s') \<Longrightarrow> steps s' = steps s \<and> max_steps s' = max_steps s"
  by (auto simp: eval_lit_set_def split: option.splits prod.splits)

lemma eval_lit_map_ctx:
  "eval_lit_map tok payload s = (v, s') \<Longrightarrow> steps s' = steps s \<and> max_steps s' = max_steps s"
  by (auto simp: eval_lit_map_def split: option.splits prod.splits)

lemma dispatch_within:
  assumes "sound_ev ev M k" "max_steps s = M" "k \<le> steps s"
  shows "within (case e of
            LitExpr l \<Rightarrow> (Return (eval_lit_prim l), s)
          | LitSetExpr payload \<Rightarrow>
              (case eval_lit_set tok payload s of (v, state'') \<Rightarrow> (Return v, state''))
          | LitMapExpr payload \<Rightarrow>
              (case eval_lit_map tok payload s of (v, state'') \<Rightarrow> (Return v, state''))
          | LitOptionExpr payload \<Rightarrow> (Return (OptionVal payload), s)
          | VarExpr name \<Rightarrow> (Return (eval_var name env), s)
          | RefExpr ref_id \<Rightarrow> (Return (eval_ref ref_id env), s)
          | CallExpr ns name args \<Rightarrow> eval_call ev reg ns name args env s
          | IfExpr c t f \<Rightarrow> eval_if ev c t f env s
          | LetExpr name val body \<Rightarrow> eval_let ev name val body env s
          | AirRefExpr ns name args \<Rightarrow>
              (Return (error_val DomainError
                 ''AirRef must be resolved during program evaluation''), s)
          | PredicateExpr name val \<Rightarrow>
              (Return (error_val DomainError
                 ''Predicate must be resolved during program evaluation''), s)
          | LambdaExpr params body \<Rightarrow> (Return (eval_lambda params body env), s)
          | CallFnExpr fn args \<Rightarrow> eval_call_expr ev fn args env s
          | FixExpr fn \<Rightarrow> eval_fix ev fn env s
          | EirSeqExpr first then_ref \<Rightarrow> (Return (eval_seq first then_ref env), s)
          | EirAssignExpr target value_ref \<Rightarrow> (Return (eval_assign target value_ref env), s)
          | EirWhileExpr c b \<Rightarrow> (Return VoidVal, s)
          | EirForExpr v i c u b \<Rightarrow> (Return VoidVal, s)
          | EirIterExpr v i b \<Rightarrow> (Return VoidVal, s)
          | EirEffectExpr op args \<Rightarrow> (Return VoidVal, s)
          | EirRefCellExpr target \<Rightarrow> (Return (eval_ref_cell target env), s)
          | EirDerefExpr target \<Rightarrow> (Return (eval_deref target env), s)
          | EirTryExpr tb cp cb fb \<Rightarrow> (Return (eval_try tb cp cb fb env), s)
          | PirExpr k \<Rightarrow>
              (Return (error_val DomainError
                 (''PIR expressions require AsyncEvaluator: '' @ k)), s)) s"
proof (cases e)
  case (LitSetExpr payload)
  obtain v s' where "eval_lit_set tok payload s = (v, s')" by (cases "eval_lit_set tok payload s")
  with LitSetExpr eval_lit_set_ctx[OF this] show ?thesis by (simp add: within_def)
next
  case (LitMapExpr payload)
  obtain v s' where "eval_lit_map tok payload s = (v, s')" by (cases "eval_lit_map tok payload s")
  with LitMapExpr eval_lit_map_ctx[OF this] show ?thesis by (simp add: within_def)
qed (simp_all add: eval_call_within[OF assms] eval_if_within[OF assms] eval_let_within[OF assms]
       eval_call_expr_within[OF assms] eval_fix_within[OF assms])

lemma eval_expr_body_within:
  assumes "sound_ev ev M k" "max_steps s = M" "k \<le> steps s + 1"
  shows "within (eval_expr_body ev tok reg e env s) s"
proof (cases "steps s + 1 > M")
  case True
  with assms(2) show ?thesis
    by (simp add: eval_expr_body_def check_steps_def and_then_def within_def Let_def)
next
  case False
  let ?s1 = "s\<lparr>steps := steps s + 1\<rparr>"
  have s1: "max_steps ?s1 = M" "k \<le> steps ?s1" using assms by simp_all
  from False assms(2) have c: "check_steps s = (Return (), ?s1)"
    by (simp add: check_steps_def Let_def)
  from dispatch_within[OF assms(1) s1, where e=e and tok=tok and env=env and reg=reg] show ?thesis
    unfolding eval_expr_body_def c and_then_def by (simp add: within_def)
qed

lemma eval_expr_sound: "sound_ev (eval_expr (Suc n) tok reg) M (M - int n)"
proof (induction n)
  case 0
  show ?case unfolding sound_ev_def
  proof (intro allI impI)
    fix e :: expr and env :: env and s :: eval_context
    assume m: "max_steps s = M" and k: "M - int 0 \<le> steps s"
    then have "steps s + 1 > M" by simp
    with m show "within (eval_expr (Suc 0) tok reg e env s) s"
      by (simp add: eval_expr_body_def check_steps_def and_then_def within_def Let_def)
  qed
next
  case (Suc n)
  show ?case unfolding sound_ev_def
  proof (intro allI impI)
    fix e :: expr and env :: env and s :: eval_context
    assume m: "max_steps s = M" and k: "M - int (Suc n) \<le> steps s"
    then have "M - int n \<le> steps s + 1" by simp
    from eval_expr_body_within[OF Suc m this]
    show "within (eval_expr (Suc (Suc n)) tok reg e env s) s" by simp
  qed
qed

text \<open>
  Every call of \<^verbatim>\<open>Evaluator.evaluate\<close> ends: it returns a value or raises, and the
  depth \<^verbatim>\<open>max_steps + 1\<close> is never used up, because each nested call of
  \<^verbatim>\<open>_eval_expr\<close> counts a step before it does anything else.
\<close>

theorem evaluate_never_out_of_fuel:
  "fst (evaluate tok reg e env opts draws) \<noteq> OutOfFuel"
proof -
  let ?M = "opt_max_steps opts"
  let ?s = "\<lparr>steps = 0, max_steps = ?M, trace = opt_trace opts, uuid_draws = draws\<rparr>"
  have "?M - int (nat ?M) \<le> steps ?s" by simp
  from sound_evD[OF eval_expr_sound _ this, of tok reg e env]
  show ?thesis by (simp add: evaluate_def within_def)
qed


section \<open>Let, fix, operator calls and if in the expression evaluator\<close>

text \<open>
  C1. A let expression is meant to evaluate its body with the bound name added to the
  environment. \<^verbatim>\<open>_eval_let\<close> builds that environment and then evaluates the body in
  the old one: \<open>let x = 1 in x\<close>, evaluated in the empty environment with the default
  options, yields the error value UnboundIdentifier for \<open>x\<close> instead of \<open>1\<close>.
\<close>

theorem let_body_misses_binding:
  "fst (evaluate tok reg let_example Map.empty default_options 0)
     = Return (ErrorVal UnboundIdentifier (Some ''Unbound identifier: x''))"
  by (simp add: eval_simps let_example_def eval_let_def)


text \<open>
  C6. An operand that is an error value is meant to become the result of an operator call
  without the implementation being invoked. In \<^verbatim>\<open>_eval_call\<close> an operand given as a
  node reference is looked up and appended without the \<^verbatim>\<open>is_error\<close> test that the
  inline operands get: with \<open>x\<close> bound to a DivideByZero error value, the call
  \<open>core:pair(x, 1)\<close> invokes the implementation on the error value and returns what it
  returns.
\<close>

theorem call_passes_error_operand_to_impl:
  "fst (evaluate tok call_registry call_example call_example_env default_options 0)
     = Return (ListVal [ErrorVal DivideByZero None, IntVal 1])"
  by (simp add: eval_simps call_example_def call_example_env_def call_registry_def listing_op_def
      eval_call_def registry_lookup_def apply_impl_def)

text \<open>
  C7. A condition that is not a bool is meant to give a TypeError. \<^verbatim>\<open>_eval_if\<close> takes
  the else branch for every condition that is not the bool true: \<open>if 1 then 10 else 20\<close>
  yields \<open>20\<close>.
\<close>

theorem if_non_bool_takes_else:
  "fst (evaluate tok reg if_example Map.empty default_options 0) = Return (IntVal 20)"
  by (simp add: eval_simps if_example_def eval_if_def)

section \<open>Races reported by the detector\<close>

lemma check_pair_sound:
  assumes "check_pair_for_race loc a1 a2 = Some r"
  shows "rc_location r = loc \<and> rc_tasks r = (task_id a1, task_id a2)
     \<and> rc_access_types r = (acc_type a1, acc_type a2)
     \<and> task_id a1 \<noteq> task_id a2
     \<and> task_id a2 \<notin> happens_before a1 \<and> task_id a1 \<notin> happens_before a2
     \<and> happens_before a1 \<inter> happens_before a2 = {}
     \<and> (acc_type a1 = Write \<or> acc_type a2 = Write)
     \<and> conflict_type r =
          (if acc_type a1 = Write then (if acc_type a2 = Write then ''W-W'' else ''W-R'')
           else ''R-W'')"
  using assms
  by (auto simp: check_pair_for_race_def has_happens_before_def get_conflict_type_def
      split: if_splits option.splits)

lemma races_from_sound:
  "r \<in> set (races_from loc a1 rest) \<Longrightarrow>
     \<exists>k < length rest. check_pair_for_race loc a1 (rest ! k) = Some r"
proof (induction rest)
  case Nil
  then show ?case by simp
next
  case (Cons a2 rest)
  show ?case
  proof (cases "check_pair_for_race loc a1 a2 = Some r")
    case True
    then have "check_pair_for_race loc a1 ((a2 # rest) ! 0) = Some r" by simp
    then show ?thesis by blast
  next
    case False
    with Cons.prems have "r \<in> set (races_from loc a1 rest)"
      by (auto split: option.splits)
    from Cons.IH[OF this] obtain k where "k < length rest"
      "check_pair_for_race loc a1 (rest ! k) = Some r" by blast
    then have "Suc k < length (a2 # rest)" "check_pair_for_race loc a1 ((a2 # rest) ! Suc k) = Some r"
      by simp_all
    then show ?thesis by blast
  qed
qed

lemma location_races_sound:
  "r \<in> set (location_races loc accs) \<Longrightarrow>
     \<exists>i j. i < j \<and> j < length accs \<and> check_pair_for_race loc (accs ! i) (accs ! j) = Some r"
proof (induction accs)
  case Nil
  then show ?case by simp
next
  case (Cons a rest)
  from Cons.prems consider "r \<in> set (races_from loc a rest)" | "r \<in> set (location_races loc rest)"
    by auto
  then show ?case
  proof cases
    case 1
    from races_from_sound[OF 1] obtain k where "k < length rest"
      "check_pair_for_race loc a (rest ! k) = Some r" by blast
    then have "0 < Suc k" "Suc k < length (a # rest)"
      "check_pair_for_race loc ((a # rest) ! 0) ((a # rest) ! Suc k) = Some r" by simp_all
    then show ?thesis by blast
  next
    case 2
    from Cons.IH[OF 2] obtain i j where "i < j" "j < length rest"
      "check_pair_for_race loc (rest ! i) (rest ! j) = Some r" by blast
    then have "Suc i < Suc j" "Suc j < length (a # rest)"
      "check_pair_for_race loc ((a # rest) ! Suc i) ((a # rest) ! Suc j) = Some r" by simp_all
    then show ?thesis by blast
  qed
qed

text \<open>Every access filed under a location was made at that location, and keys are distinct.\<close>

definition accesses_filed :: "race_detector \<Rightarrow> bool" where
  "accesses_filed d =
     (distinct (map fst (accesses d)) \<and>
      list_all (\<lambda>(loc, accs). list_all (\<lambda>a. location a = loc) accs) (accesses d))"

lemma update_filed:
  assumes "list_all (\<lambda>(loc, accs). list_all (\<lambda>a. location a = loc) accs) al"
    and "list_all (\<lambda>a. location a = k) v"
  shows "list_all (\<lambda>(loc, accs). list_all (\<lambda>a. location a = loc) accs) (AList.update k v al)"
  using assms by (induction al) (auto simp: )

lemma map_of_filed:
  assumes "list_all (\<lambda>(loc, accs). list_all (\<lambda>a. location a = loc) accs) al"
    and "map_of al k = Some v"
  shows "list_all (\<lambda>a. location a = k) v"
  using assms by (induction al) (auto split: if_splits)

lemma record_access_filed:
  assumes "accesses_filed d"
  shows "accesses_filed (record_access d tid loc ty v now)"
proof (cases "enable_race_detection (rd_options d)")
  case False
  with assms show ?thesis by (simp add: record_access_def)
next
  case True
  from assms have f: "list_all (\<lambda>(loc, accs). list_all (\<lambda>a. location a = loc) accs) (accesses d)"
    and dist: "distinct (map fst (accesses d))" by (simp_all add: accesses_filed_def)
  have ex: "list_all (\<lambda>a. location a = loc)
      (case map_of (accesses d) loc of Some l \<Rightarrow> l | None \<Rightarrow> [])"
    using map_of_filed[OF f] by (auto split: option.splits)
  show ?thesis using True dist update_filed[OF f] ex
    by (simp add: record_access_def accesses_filed_def Let_def distinct_update)
qed

lemma apply_call_filed:
  assumes "accesses_filed d"
  shows "accesses_filed (apply_call d c)"
proof (cases c)
  case (RecordAccess tid loc ty v now)
  then show ?thesis using record_access_filed[OF assms] by simp
next
  case (RecordSyncPoint tid ids)
  then show ?thesis using assms by (simp add: record_sync_point_def accesses_filed_def)
qed

lemma foldl_filed: "accesses_filed d \<Longrightarrow> accesses_filed (foldl apply_call d calls)"
  by (induction calls arbitrary: d) (auto simp: apply_call_filed)

lemma session_filed: "accesses_filed (detector_session opts calls)"
  unfolding detector_session_def
  by (rule foldl_filed) (simp add: accesses_filed_def new_race_detector_def)

text \<open>
  C8. In a detector session, every race that \<^verbatim>\<open>detect_races\<close> reports comes from two
  accesses recorded at the race's location, the first recorded before the second, such
  that the two task ids differ, neither happens-before set contains the other access's
  task id, the two happens-before sets have no common element, and at least one of the
  two is a write (so no read-read pair is reported); the conflict type is W-W, W-R or R-W
  as the two access kinds are write-write, write-read or read-write.
\<close>

theorem detect_races_sound:
  assumes "r \<in> set (detect_races (detector_session opts calls))"
  shows "\<exists>accs i j. (rc_location r, accs) \<in> set (accesses (detector_session opts calls))
     \<and> i < j \<and> j < length accs
     \<and> location (accs ! i) = rc_location r \<and> location (accs ! j) = rc_location r
     \<and> rc_tasks r = (task_id (accs ! i), task_id (accs ! j))
     \<and> rc_access_types r = (acc_type (accs ! i), acc_type (accs ! j))
     \<and> task_id (accs ! i) \<noteq> task_id (accs ! j)
     \<and> task_id (accs ! j) \<notin> happens_before (accs ! i)
     \<and> task_id (accs ! i) \<notin> happens_before (accs ! j)
     \<and> happens_before (accs ! i) \<inter> happens_before (accs ! j) = {}
     \<and> (acc_type (accs ! i) = Write \<or> acc_type (accs ! j) = Write)
     \<and> conflict_type r =
          (if acc_type (accs ! i) = Write
           then (if acc_type (accs ! j) = Write then ''W-W'' else ''W-R'')
           else ''R-W'')"
proof -
  let ?d = "detector_session opts calls"
  from assms obtain loc accs where mem: "(loc, accs) \<in> set (accesses ?d)"
    and r: "r \<in> set (location_races loc accs)"
    by (auto simp: detect_races_def split: if_splits)
  from location_races_sound[OF r] obtain i j where ij: "i < j" "j < length accs"
    and cp: "check_pair_for_race loc (accs ! i) (accs ! j) = Some r" by blast
  note s = check_pair_sound[OF cp]
  from session_filed[of opts calls] mem have "list_all (\<lambda>a. location a = loc) accs"
    by (auto simp: accesses_filed_def list_all_iff)
  with ij have "location (accs ! i) = loc" "location (accs ! j) = loc"
    by (simp_all add: list_all_length)
  with s mem ij show ?thesis by (intro exI[of _ accs] exI[of _ i] exI[of _ j]) simp
qed


theorem detect_races_sound_witness:
  "ww_race \<in> set (detect_races (detector_session on_options ww_calls))
   \<and> (\<exists>accs i j. (rc_location ww_race, accs) \<in> set (accesses (detector_session on_options ww_calls))
        \<and> i < j \<and> j < length accs
        \<and> task_id (accs ! i) \<noteq> task_id (accs ! j)
        \<and> (acc_type (accs ! i) = Write \<or> acc_type (accs ! j) = Write)
        \<and> conflict_type ww_race = ''W-W'')"
proof -
  have m: "ww_race \<in> set (detect_races (detector_session on_options ww_calls))"
    by (simp add: race_simps ww_calls_def on_options_def ww_race_def)
  have c: "conflict_type ww_race = ''W-W''" by (simp add: ww_race_def)
  from detect_races_sound[OF m] c m show ?thesis by metis
qed

subsection \<open>Every conflicting pair is reported\<close>

text \<open>
  The inner loop reports the pair it is given, and the outer loop reaches every pair
  \<open>i < j\<close> of one location.
\<close>

lemma races_from_complete:
  "k < length rest \<Longrightarrow> check_pair_for_race loc a1 (rest ! k) = Some r \<Longrightarrow>
     r \<in> set (races_from loc a1 rest)"
proof (induction rest arbitrary: k)
  case Nil
  then show ?case by simp
next
  case (Cons a2 rest)
  show ?case
  proof (cases k)
    case 0
    with Cons.prems show ?thesis by simp
  next
    case (Suc k')
    with Cons.prems have "k' < length rest" "check_pair_for_race loc a1 (rest ! k') = Some r"
      by simp_all
    from Cons.IH[OF this] show ?thesis by (simp split: option.splits)
  qed
qed

lemma location_races_complete:
  "i < j \<Longrightarrow> j < length accs \<Longrightarrow> check_pair_for_race loc (accs ! i) (accs ! j) = Some r \<Longrightarrow>
     r \<in> set (location_races loc accs)"
proof (induction accs arbitrary: i j)
  case Nil
  then show ?case by simp
next
  case (Cons a accs)
  from Cons.prems(1) obtain j' where j: "j = Suc j'" by (cases j) auto
  show ?case
  proof (cases i)
    case 0
    with Cons.prems j have "j' < length accs" "check_pair_for_race loc a (accs ! j') = Some r"
      by simp_all
    from races_from_complete[OF this] show ?thesis by simp
  next
    case (Suc i')
    with Cons.prems j have "i' < j'" "j' < length accs"
      "check_pair_for_race loc (accs ! i') (accs ! j') = Some r" by simp_all
    from Cons.IH[OF this] show ?thesis by simp
  qed
qed

text \<open>
  With race detection enabled, \<^verbatim>\<open>detect_races\<close> reports every pair of accesses to one
  location, taken in recording order, that come from different tasks, are not ordered by
  happens-before and of which at least one is a write: the report names the location, the
  two tasks and the two access types in that order.
\<close>

theorem detect_races_complete:
  assumes "enable_race_detection (rd_options d)"
    and "(loc, accs) \<in> set (accesses d)"
    and "i < j" and "j < length accs"
    and "task_id (accs ! i) \<noteq> task_id (accs ! j)"
    and "\<not> has_happens_before (accs ! i) (accs ! j)"
    and "acc_type (accs ! i) = Write \<or> acc_type (accs ! j) = Write"
  shows "\<exists>r. r \<in> set (detect_races d) \<and> rc_location r = loc
           \<and> rc_tasks r = (task_id (accs ! i), task_id (accs ! j))
           \<and> rc_access_types r = (acc_type (accs ! i), acc_type (accs ! j))"
proof -
  from assms(5,6,7) obtain r where c: "check_pair_for_race loc (accs ! i) (accs ! j) = Some r"
    by (cases "acc_type (accs ! i)"; cases "acc_type (accs ! j)")
       (auto simp: check_pair_for_race_def get_conflict_type_def)
  from location_races_complete[OF assms(3,4) c] assms(1,2)
  have "r \<in> set (detect_races d)" by (auto simp: detect_races_def)
  moreover from c have "rc_location r = loc \<and> rc_tasks r = (task_id (accs ! i), task_id (accs ! j))
           \<and> rc_access_types r = (acc_type (accs ! i), acc_type (accs ! j))"
    by (auto simp: check_pair_for_race_def split: if_splits option.splits)
  ultimately show ?thesis by blast
qed

theorem detect_races_complete_witness:
  "enable_race_detection (rd_options (detector_session on_options ww_calls))
   \<and> (''L'', ww_accesses) \<in> set (accesses (detector_session on_options ww_calls))
   \<and> (0::nat) < 1 \<and> 1 < length ww_accesses
   \<and> task_id (ww_accesses ! 0) \<noteq> task_id (ww_accesses ! 1)
   \<and> \<not> has_happens_before (ww_accesses ! 0) (ww_accesses ! 1)
   \<and> acc_type (ww_accesses ! 0) = Write
   \<and> (\<exists>r. r \<in> set (detect_races (detector_session on_options ww_calls)) \<and> rc_location r = ''L''
           \<and> rc_tasks r = (''t1'', ''t2''))"
proof -
  have a: "enable_race_detection (rd_options (detector_session on_options ww_calls))"
    by (simp add: race_simps ww_calls_def on_options_def)
  have b: "(''L'', ww_accesses) \<in> set (accesses (detector_session on_options ww_calls))"
    by (simp add: race_simps ww_calls_def on_options_def ww_accesses_def)
  have c: "task_id (ww_accesses ! 0) \<noteq> task_id (ww_accesses ! 1)"
    "\<not> has_happens_before (ww_accesses ! 0) (ww_accesses ! 1)"
    "acc_type (ww_accesses ! 0) = Write" "1 < length ww_accesses"
    by (simp_all add: ww_accesses_def has_happens_before_def)
  from detect_races_complete[OF a b _ c(4) c(1) c(2)] c(3)
  have "\<exists>r. r \<in> set (detect_races (detector_session on_options ww_calls)) \<and> rc_location r = ''L''
           \<and> rc_tasks r = (''t1'', ''t2'')"
    by (auto simp add: ww_accesses_def)
  with a b c show ?thesis by simp
qed

section \<open>Completion of tasks in the default scheduler\<close>

lemma spawned_ids_append: "spawned_ids (xs @ ys) = spawned_ids xs @ spawned_ids ys"
  by (induction xs rule: spawned_ids.induct) auto

lemma apply_event_tasks_None:
  assumes "tasks s tid = None" and "e \<noteq> Spawn tid"
  shows "tasks (apply_event s e) tid = None"
  using assms
  by (cases e) (auto simp: spawn_def task_returned_def task_raised_def cancel_def Let_def
      split: option.splits)

lemma never_spawned_absent:
  "tid \<notin> set (spawned_ids events) \<Longrightarrow> tasks (scheduler_session events) tid = None"
proof (induction events rule: rev_induct)
  case Nil
  show ?case by (simp add: scheduler_session_def new_scheduler_def)
next
  case (snoc e events)
  from snoc.prems have a: "tid \<notin> set (spawned_ids events)" and b: "e \<noteq> Spawn tid"
    by (auto simp: spawned_ids_append)
  from snoc.IH[OF a] have "tasks (scheduler_session events) tid = None" .
  from apply_event_tasks_None[OF this b] show ?case
    by (simp add: scheduler_session_def)
qed

text \<open>Every address in the task table holds a task object.\<close>

definition table_valid :: "scheduler \<Rightarrow> bool" where
  "table_valid s = (\<forall>tid a. tasks s tid = Some a \<longrightarrow> task_store s a \<noteq> None)"

lemma apply_event_valid:
  assumes "table_valid s"
  shows "table_valid (apply_event s e)"
  using assms
  by (cases e) (auto simp: table_valid_def spawn_def task_returned_def task_raised_def cancel_def
      Let_def split: option.splits if_splits)

lemma session_valid: "table_valid (scheduler_session events)"
proof (induction events rule: rev_induct)
  case Nil
  show ?case by (simp add: scheduler_session_def new_scheduler_def table_valid_def)
next
  case (snoc e events)
  from apply_event_valid[OF snoc.IH] show ?case by (simp add: scheduler_session_def)
qed

lemma is_complete_iff:
  assumes "table_valid s"
  shows "is_complete s tid =
     (tasks s tid = None \<or>
      (\<exists>a t. tasks s tid = Some a \<and> task_store s a = Some t
         \<and> (tk_status t = COMPLETED \<or> tk_status t = FAILED)))"
  using assms by (fastforce simp: is_complete_def table_valid_def split: option.splits)

text \<open>
  C9 as the code has it. In every scheduler session \<^verbatim>\<open>is_complete(t)\<close> is true exactly
  when \<open>t\<close> has no entry in the task table or the entry's task has status completed or
  failed. So it is true for an id that was never spawned, false for a task just spawned
  (still pending), true once the task's body has returned or raised, and true after
  \<^verbatim>\<open>cancel\<close>, which deletes the entry.
\<close>

theorem is_complete_session:
  "(is_complete (scheduler_session events) tid =
      (tasks (scheduler_session events) tid = None \<or>
       (\<exists>a t. tasks (scheduler_session events) tid = Some a
          \<and> task_store (scheduler_session events) a = Some t
          \<and> (tk_status t = COMPLETED \<or> tk_status t = FAILED))))
   \<and> (tid \<notin> set (spawned_ids events) \<longrightarrow> is_complete (scheduler_session events) tid)
   \<and> \<not> is_complete (spawn (scheduler_session events) tid) tid
   \<and> is_complete (task_returned (spawn (scheduler_session events) tid)
        (next_address (scheduler_session events)) v) tid
   \<and> is_complete (task_raised (spawn (scheduler_session events) tid)
        (next_address (scheduler_session events)) err) tid
   \<and> is_complete (cancel (scheduler_session events) tid) tid"
proof -
  let ?s = "scheduler_session events"
  have 1: "is_complete ?s tid =
           (tasks ?s tid = None \<or>
            (\<exists>a t. tasks ?s tid = Some a \<and> task_store ?s a = Some t
               \<and> (tk_status t = COMPLETED \<or> tk_status t = FAILED)))"
    by (rule is_complete_iff[OF session_valid])
  have 2: "tid \<notin> set (spawned_ids events) \<longrightarrow> is_complete ?s tid"
    using never_spawned_absent by (auto simp: is_complete_def)
  have 3: "\<not> is_complete (spawn ?s tid) tid"
    by (simp add: is_complete_def spawn_def Let_def)
  have 4: "is_complete (task_returned (spawn ?s tid) (next_address ?s) v) tid"
    by (simp add: is_complete_def spawn_def task_returned_def Let_def)
  have 5: "is_complete (task_raised (spawn ?s tid) (next_address ?s) err) tid"
    by (simp add: is_complete_def spawn_def task_raised_def Let_def)
  have 6: "is_complete (cancel ?s tid) tid"
    by (simp add: is_complete_def cancel_def split: option.splits)
  from 1 2 3 4 5 6 show ?thesis by blast
qed

theorem is_complete_session_witness:
  "''t9'' \<notin> set (spawned_ids [Spawn ''t1'', TaskReturned 0 (IntVal 1)])
   \<and> is_complete (scheduler_session [Spawn ''t1'', TaskReturned 0 (IntVal 1)]) ''t9''
   \<and> is_complete (scheduler_session [Spawn ''t1'', TaskReturned 0 (IntVal 1)]) ''t1''
   \<and> \<not> is_complete (scheduler_session [Spawn ''t1'']) ''t1''"
proof -
  have a: "''t9'' \<notin> set (spawned_ids [Spawn ''t1'', TaskReturned 0 (IntVal 1)])" by simp
  have b: "\<not> is_complete (scheduler_session [Spawn ''t1'']) ''t1''"
    using is_complete_session[of "[]" "''t1''"] by (simp add: scheduler_session_def)
  have c: "is_complete (scheduler_session [Spawn ''t1'', TaskReturned 0 (IntVal 1)]) ''t1''"
    using is_complete_session[of "[]" "''t1''" "IntVal 1"]
    by (simp add: scheduler_session_def new_scheduler_def)
  from a b c is_complete_session[of "[Spawn ''t1'', TaskReturned 0 (IntVal 1)]" "''t9''"]
  show ?thesis by blast
qed

text \<open>
  C9 as stated says that \<^verbatim>\<open>is_complete\<close> is false for an id that was never spawned.
  On a new scheduler it is true.
\<close>

theorem never_spawned_counterexample:
  "is_complete (scheduler_session []) ''t0'' = True"
  by (simp add: is_complete_def scheduler_session_def new_scheduler_def)

section \<open>Function application\<close>











section \<open>Phi resolution\<close>

text \<open>
  A source is usable when its variable is bound to a value that is not an error value.
  \<open>phi_choice\<close> is the first usable source whose block is the predecessor, when the
  predecessor is set, and else the first usable source.
\<close>

definition usable :: "(string \<Rightarrow> value option) \<Rightarrow> phi_source \<Rightarrow> bool" where
  "usable vs source = (case vs (src_id source) of Some v \<Rightarrow> \<not> is_error v | None \<Rightarrow> False)"

definition phi_choice :: "lir_state \<Rightarrow> phi_source list \<Rightarrow> phi_source option" where
  "phi_choice state sources =
     (case (if truthy_str (predecessor state)
            then find (\<lambda>s. src_block s = the (predecessor state) \<and> usable (vars state) s) sources
            else None) of
        Some s \<Rightarrow> Some s
      | None \<Rightarrow> find (usable (vars state)) sources)"

definition phi_sources :: "phi_source list" where
  "phi_sources = [PhiSource ''b0'' ''i'', PhiSource ''b2'' ''n2'']"

definition phi_state :: lir_state where
  "phi_state =
     \<lparr>vars = [''i'' \<mapsto> IntVal 5, ''n2'' \<mapsto> ErrorVal DivideByZero None], return_value = None,
      effects = [], lir_steps = 3, lir_max_steps = 10000, predecessor = Some ''b2''\<rparr>"

lemma phi_match_loop_find:
  "phi_match_loop pred vs sources =
     (case find (\<lambda>s. src_block s = pred \<and> usable vs s) sources of
        None \<Rightarrow> None | Some s \<Rightarrow> vs (src_id s))"
  by (induction sources) (auto simp: usable_def split: option.splits)

lemma phi_fallback_loop_find:
  "phi_fallback_loop vs sources =
     (case find (usable vs) sources of None \<Rightarrow> None | Some s \<Rightarrow> vs (src_id s))"
  by (induction sources) (auto simp: usable_def split: option.splits)

lemma execute_phi_choice:
  "execute_phi target sources state =
     (case phi_choice state sources of
        None \<Rightarrow>
          (Some (error_val DomainError (''Phi node has no valid sources: '' @ target)), state)
      | Some s \<Rightarrow>
          (None, state\<lparr>vars := (vars state)(target \<mapsto> the (vars state (src_id s)))\<rparr>))"
proof -
  have a: "\<And>P s. find (\<lambda>s. P s \<and> usable (vars state) s) sources = Some s
      \<Longrightarrow> \<exists>v. vars state (src_id s) = Some v"
    by (auto simp: find_Some_iff usable_def split: option.splits)
  have b: "\<And>s. find (usable (vars state)) sources = Some s
      \<Longrightarrow> \<exists>v. vars state (src_id s) = Some v"
    by (auto simp: find_Some_iff usable_def split: option.splits)
  show ?thesis
    unfolding execute_phi_def phi_choice_def Let_def phi_match_loop_find phi_fallback_loop_find
    by (auto split: option.splits dest!: a b)
qed

lemma cfg_step_predecessor:
  "cfg_step reg eff blocks cur ex state = Inr (next_id, ex', state') \<Longrightarrow>
     predecessor state' = Some cur"
  by (auto simp: cfg_step_def Let_def split: option.splits if_splits prod.splits sum.splits)

text \<open>
  C4 as the code has it. A phi instruction takes the first source in declared order whose
  block is the predecessor and whose variable is bound to a non-error value; when there
  is none (or no predecessor is set) it takes the first source in declared order whose
  variable is bound to a non-error value, and assigns that variable's value to the
  target; with no such source at all it returns a DomainError and leaves the state as it
  is. The predecessor is the block the loop has just left: the loop sets it when it moves
  on, instructions leave it alone, and it is unset on the first pass.
\<close>

theorem execute_phi_selects:
  "execute_phi target sources state =
     (case phi_choice state sources of
        None \<Rightarrow>
          (Some (error_val DomainError (''Phi node has no valid sources: '' @ target)), state)
      | Some s \<Rightarrow>
          (None, state\<lparr>vars := (vars state)(target \<mapsto> the (vars state (src_id s)))\<rparr>))
   \<and> (phi_choice state sources = Some s \<longrightarrow>
        s \<in> set sources \<and> usable (vars state) s
        \<and> (\<exists>v. vars state (src_id s) = Some v \<and> \<not> is_error v))
   \<and> (cfg_step reg eff blocks cur ex state0 = Inr (next_id, ex', state1) \<longrightarrow>
        predecessor state1 = Some cur)
   \<and> (execute_instruction reg eff ins state = (r, state') \<longrightarrow>
        predecessor state' = predecessor state)
   \<and> predecessor (initial_lir_state inputs limit) = None"
proof -
  have 2: "phi_choice state sources = Some s \<longrightarrow>
        s \<in> set sources \<and> usable (vars state) s
        \<and> (\<exists>v. vars state (src_id s) = Some v \<and> \<not> is_error v)"
    by (auto simp: phi_choice_def find_Some_iff usable_def split: option.splits if_splits)
  show ?thesis
    using execute_phi_choice 2 cfg_step_predecessor execute_instruction_steps
    by (simp add: initial_lir_state_def)
qed

theorem execute_phi_selects_witness:
  "cfg_step Map.empty Map.empty loop_blocks ''b0'' {} (initial_lir_state Map.empty 3)
     = Inr (''b1'', {''b0''}, after_b0)
   \<and> predecessor after_b0 = Some ''b0''
   \<and> phi_choice after_b0 [PhiSource ''b0'' ''i'', PhiSource ''b1'' ''n''] = Some (PhiSource ''b0'' ''i'')
   \<and> PhiSource ''b0'' ''i'' \<in> set [PhiSource ''b0'' ''i'', PhiSource ''b1'' ''n'']
   \<and> vars after_b0 ''i'' = Some (IntVal 5)
   \<and> execute_phi ''n'' [PhiSource ''b0'' ''i'', PhiSource ''b1'' ''n''] after_b0
       = (None, after_b0\<lparr>vars := (vars after_b0)(''n'' \<mapsto> IntVal 5)\<rparr>)
   \<and> execute_instruction Map.empty Map.empty
         (InsPhi ''n'' [PhiSource ''b0'' ''i'', PhiSource ''b1'' ''n'']) after_b0
       = (None, after_b0\<lparr>vars := (vars after_b0)(''n'' \<mapsto> IntVal 5)\<rparr>)
   \<and> predecessor (after_b0\<lparr>vars := (vars after_b0)(''n'' \<mapsto> IntVal 5)\<rparr>) = Some ''b0''"
  using execute_phi_selects[of "''n''" "[PhiSource ''b0'' ''i'', PhiSource ''b1'' ''n'']" after_b0
      "PhiSource ''b0'' ''i''" Map.empty Map.empty loop_blocks "''b0''" "{}"
      "initial_lir_state Map.empty 3" "''b1''" "{''b0''}" after_b0
      "InsPhi ''n'' [PhiSource ''b0'' ''i'', PhiSource ''b1'' ''n'']" None
      "after_b0\<lparr>vars := (vars after_b0)(''n'' \<mapsto> IntVal 5)\<rparr>"]
  by (simp add: lir_simps loop_blocks_def after_b0_def phi_choice_def usable_def)

text \<open>
  C4 as stated has the source of the predecessor block selected whenever there is one.
  With predecessor \<open>b2\<close>, the source \<open>(b2, n2)\<close> present and \<open>n2\<close> bound to an error
  value, the phi takes \<open>(b0, i)\<close> and assigns \<open>5\<close>.
\<close>

theorem phi_skips_matching_source:
  "predecessor phi_state = Some ''b2''
   \<and> src_block (phi_sources ! 1) = ''b2''
   \<and> vars phi_state (src_id (phi_sources ! 1)) = Some (ErrorVal DivideByZero None)
   \<and> execute_phi ''n'' phi_sources phi_state
       = (None, phi_state\<lparr>vars := (vars phi_state)(''n'' \<mapsto> IntVal 5)\<rparr>)"
  by (simp add: phi_state_def phi_sources_def execute_phi_def truthy_str_def is_error_def Let_def)


section \<open>Step counting in the CFG executor\<close>

text \<open>
  \<open>over_limit v state\<close>: the step counter is within the limit, or it is one above it and
  \<open>v\<close> is a NonTermination error value.
\<close>

definition over_limit :: "value \<Rightarrow> lir_state \<Rightarrow> bool" where
  "over_limit v state =
     (lir_steps state \<le> lir_max_steps state
      \<or> (lir_steps state = lir_max_steps state + 1 \<and> error_code_of v = Some NonTermination))"

definition ret_block :: lir_block where
  "ret_block = \<lparr>block_id = ''b0'', instructions = [], terminator = TermReturn None\<rparr>"

lemma execute_block_limit:
  "lir_steps state \<le> lir_max_steps state \<Longrightarrow> execute_block reg eff inss state = (r, state') \<Longrightarrow>
     lir_steps state' \<le> lir_max_steps state'
     \<or> (lir_steps state' = lir_max_steps state' + 1
         \<and> r = Some (error_val NonTermination ''Block execution exceeded maximum steps''))"
proof (induction inss arbitrary: state)
  case Nil
  then show ?case by simp
next
  case (Cons ins rest)
  let ?s1 = "state\<lparr>lir_steps := lir_steps state + 1\<rparr>"
  show ?case
  proof (cases "lir_steps ?s1 > lir_max_steps ?s1")
    case True
    with Cons.prems show ?thesis by (auto simp: Let_def)
  next
    case False
    obtain r1 s2 where ei: "execute_instruction reg eff ins ?s1 = (r1, s2)"
      by (cases "execute_instruction reg eff ins ?s1")
    from execute_instruction_steps[OF ei] False
    have s2: "lir_steps s2 \<le> lir_max_steps s2" by simp
    show ?thesis
    proof (cases r1)
      case None
      with Cons.prems False ei have "execute_block reg eff rest s2 = (r, state')"
        by (simp add: Let_def)
      from Cons.IH[OF s2 this] show ?thesis .
    next
      case (Some err)
      with Cons.prems False ei have "state' = s2" by (simp add: Let_def)
      with s2 show ?thesis by simp
    qed
  qed
qed

lemma cfg_step_limit:
  assumes "lir_steps state \<le> lir_max_steps state"
  shows "case cfg_step reg eff blocks cur ex state of
           Inl (v, final) \<Rightarrow> over_limit v final
         | Inr (next_id, ex', state') \<Rightarrow> lir_steps state' \<le> lir_max_steps state'"
proof -
  let ?s1 = "if cur \<in> ex then state\<lparr>lir_steps := lir_steps state + 1\<rparr> else state"
  show ?thesis
  proof (cases "cur \<in> ex \<and> lir_steps ?s1 > lir_max_steps ?s1")
    case True
    with assms show ?thesis
      by (auto simp: cfg_step_def Let_def over_limit_def error_val_def)
  next
    case False
    then have s1: "lir_steps ?s1 \<le> lir_max_steps ?s1" using assms by auto
    show ?thesis
    proof (cases "find_block blocks cur")
      case None
      with False s1 show ?thesis by (auto simp: cfg_step_def Let_def over_limit_def)
    next
      case (Some blk)
      obtain r s2 where eb: "execute_block reg eff (instructions blk) ?s1 = (r, s2)"
        by (cases "execute_block reg eff (instructions blk) ?s1")
      note lim = execute_block_limit[OF s1 eb]
      show ?thesis
      proof (cases r)
        case (Some err)
        with lim False \<open>find_block blocks cur = Some blk\<close> eb show ?thesis
          by (auto simp: cfg_step_def Let_def over_limit_def error_val_def)
      next
        case None
        with lim have s2: "lir_steps s2 \<le> lir_max_steps s2" by auto
        obtain t s3 where et: "execute_terminator (terminator blk) s2 = (t, s3)"
          by (cases "execute_terminator (terminator blk) s2")
        from execute_terminator_steps[OF et] s2 have "lir_steps s3 \<le> lir_max_steps s3" by simp
        with None False \<open>find_block blocks cur = Some blk\<close> eb et show ?thesis
          by (cases t) (auto simp: cfg_step_def Let_def over_limit_def)
      qed
    qed
  qed
qed

lemma cfg_loop_limit:
  "lir_steps state \<le> lir_max_steps state \<Longrightarrow>
     cfg_loop reg eff blocks cur ex state = (v, final) \<Longrightarrow> over_limit v final"
proof (induction reg eff blocks cur ex state rule: cfg_loop.induct)
  case (1 reg eff blocks cur ex state)
  show ?case
  proof (cases "cur = []")
    case True
    with "1.prems" show ?thesis
      by (auto simp: cfg_loop.simps over_limit_def split: option.splits)
  next
    case False
    note lim = cfg_step_limit[OF "1.prems"(1), of reg eff blocks cur ex]
    show ?thesis
    proof (cases "cfg_step reg eff blocks cur ex state")
      case (Inl res)
      with False "1.prems"(2) lim show ?thesis by (auto simp: cfg_loop.simps)
    next
      case (Inr nxt)
      obtain next_id ex' state' where n: "nxt = (next_id, ex', state')" by (cases nxt) auto
      with Inr lim have s': "lir_steps state' \<le> lir_max_steps state'" by simp
      from False Inr n "1.prems"(2) have "cfg_loop reg eff blocks next_id ex' state' = (v, final)"
        by (simp add: cfg_loop.simps)
      from "1.IH"[OF False Inr n[symmetric] _ s' this] show ?thesis by simp
    qed
  qed
qed

lemma cfg_step_cost:
  assumes "cfg_step reg eff blocks cur ex state = Inr (next_id, ex', state')"
  shows "\<exists>blk. find_block blocks cur = Some blk
     \<and> lir_steps state' =
         lir_steps state + (if cur \<in> ex then 1 else 0) + int (length (instructions blk))"
proof -
  let ?s1 = "if cur \<in> ex then state\<lparr>lir_steps := lir_steps state + 1\<rparr> else state"
  from assms obtain blk where fb: "find_block blocks cur = Some blk"
    by (auto simp: cfg_step_def Let_def split: option.splits if_splits)
  from assms fb obtain s2 where eb: "execute_block reg eff (instructions blk) ?s1 = (None, s2)"
    by (auto simp: cfg_step_def Let_def split: option.splits if_splits prod.splits sum.splits)
  from assms fb eb obtain s3 where et: "execute_terminator (terminator blk) s2 = (Inl next_id, s3)"
    and st': "state' = s3\<lparr>predecessor := Some cur\<rparr>"
    by (auto simp: cfg_step_def Let_def split: option.splits if_splits prod.splits sum.splits)
  from execute_block_steps[OF eb] execute_terminator_steps[OF et] st' fb
  show ?thesis by (auto split: if_splits)
qed

text \<open>
  C5 as the code has it. A block whose instructions all succeed raises the step counter
  by the number of its instructions, one before each; an instruction itself and a
  terminator leave the counter alone; a full pass through a block costs one more step when
  the block was entered before. When a run that starts with a limit of at least zero ends
  with the counter above the limit, the counter is exactly one above it and the result is
  a NonTermination error value.
\<close>

theorem lir_step_counting:
  "(execute_block reg eff inss state = (None, state') \<longrightarrow>
      lir_steps state' = lir_steps state + int (length inss))
   \<and> (execute_instruction reg eff ins state = (r, state') \<longrightarrow> lir_steps state' = lir_steps state)
   \<and> (execute_terminator term state = (t, state') \<longrightarrow> lir_steps state' = lir_steps state)
   \<and> (cfg_step reg eff blocks cur ex state = Inr (next_id, ex', state') \<longrightarrow>
        (\<exists>blk. find_block blocks cur = Some blk
           \<and> lir_steps state' =
               lir_steps state + (if cur \<in> ex then 1 else 0) + int (length (instructions blk))))
   \<and> (0 \<le> limit \<and> execute_cfg reg eff limit inputs blocks entry = (v, final)
        \<and> lir_steps final > lir_max_steps final \<longrightarrow>
        error_code_of v = Some NonTermination \<and> lir_steps final = lir_max_steps final + 1)"
proof -
  have 5: "0 \<le> limit \<and> execute_cfg reg eff limit inputs blocks entry = (v, final)
        \<and> lir_steps final > lir_max_steps final \<longrightarrow>
        error_code_of v = Some NonTermination \<and> lir_steps final = lir_max_steps final + 1"
  proof (intro impI, elim conjE)
    assume l: "0 \<le> limit" and e: "execute_cfg reg eff limit inputs blocks entry = (v, final)"
      and o: "lir_steps final > lir_max_steps final"
    show "error_code_of v = Some NonTermination \<and> lir_steps final = lir_max_steps final + 1"
    proof (cases "find_block blocks entry")
      case None
      with e o l show ?thesis by (auto simp: execute_cfg_def initial_lir_state_def)
    next
      case (Some b)
      with e have c: "cfg_loop reg eff blocks entry {} (initial_lir_state inputs limit) = (v, final)"
        by (simp add: execute_cfg_def)
      have i: "lir_steps (initial_lir_state inputs limit) \<le> lir_max_steps (initial_lir_state inputs limit)"
        using l by (simp add: initial_lir_state_def)
      from cfg_loop_limit[OF i c] o show ?thesis by (auto simp: over_limit_def)
    qed
  qed
  show ?thesis
    using execute_block_steps[of reg eff inss state None state']
      execute_instruction_steps[of reg eff ins state r state']
      execute_terminator_steps[of "term" state t state']
      cfg_step_cost[of reg eff blocks cur ex state next_id ex' state'] 5
    by blast
qed


theorem lir_step_counting_witness:
  "execute_block Map.empty Map.empty [InsAssign ''i'' (LitExpr (LitInt 5))]
       (initial_lir_state Map.empty 3)
     = (None, after_b0\<lparr>predecessor := None\<rparr>)
   \<and> lir_steps (after_b0\<lparr>predecessor := None\<rparr>) = lir_steps (initial_lir_state Map.empty 3) + 1
   \<and> cfg_step Map.empty Map.empty loop_blocks ''b0'' {} (initial_lir_state Map.empty 3)
     = Inr (''b1'', {''b0''}, after_b0)
   \<and> execute_terminator (TermJump ''b1'') (after_b0\<lparr>predecessor := None\<rparr>)
     = (Inl ''b1'', after_b0\<lparr>predecessor := None\<rparr>)
   \<and> (0::int) \<le> 3
   \<and> lir_steps (snd (execute_cfg Map.empty Map.empty 3 Map.empty loop_blocks ''b0'')) = 4
   \<and> lir_max_steps (snd (execute_cfg Map.empty Map.empty 3 Map.empty loop_blocks ''b0'')) = 3
   \<and> error_code_of (fst (execute_cfg Map.empty Map.empty 3 Map.empty loop_blocks ''b0''))
       = Some NonTermination"
  using lir_step_counting[of Map.empty Map.empty "[InsAssign ''i'' (LitExpr (LitInt 5))]"
      "initial_lir_state Map.empty 3" "after_b0\<lparr>predecessor := None\<rparr>"]
  by (simp add: lir_simps loop_blocks_def after_b0_def)

text \<open>
  C5 as stated counts a step for every terminator. A block with no instruction and a
  \<^verbatim>\<open>return\<close>, run with the limit 0, returns void with the counter still at 0.
\<close>

theorem terminator_counts_no_step:
  "execute_cfg Map.empty Map.empty 0 Map.empty [ret_block] ''b0''
     = (VoidVal, initial_lir_state Map.empty 0)
   \<and> lir_steps (snd (execute_cfg Map.empty Map.empty 0 Map.empty [ret_block] ''b0'')) = 0"
  by (simp add: lir_simps ret_block_def)


section \<open>Value hashing and set and map literals\<close>
















section \<open>Error operands of operator instructions in the CFG executor\<close>

text \<open>The operand loop stops at the first operand that holds an error.\<close>

lemma lir_args_first_error:
  "i < length args \<Longrightarrow> (\<forall>j<i. \<exists>w. vs (args ! j) = Some w \<and> \<not> is_error w) \<Longrightarrow>
     vs (args ! i) = Some v \<Longrightarrow> is_error v \<Longrightarrow> lir_args vs args acc = Inl v"
proof (induction args arbitrary: i acc)
  case Nil
  then show ?case by simp
next
  case (Cons a args)
  show ?case
  proof (cases i)
    case 0
    with Cons.prems show ?thesis by simp
  next
    case (Suc i')
    from Cons.prems(2) Suc have "\<exists>w. vs a = Some w \<and> \<not> is_error w" by force
    then obtain w where w: "vs a = Some w" "\<not> is_error w" by blast
    from Cons.prems Suc have "i' < length args" "\<forall>j<i'. \<exists>w. vs (args ! j) = Some w \<and> \<not> is_error w"
      "vs (args ! i') = Some v" by auto
    from Cons.IH[OF this Cons.prems(4)] w show ?thesis by simp
  qed
qed

text \<open>
  \<^verbatim>\<open>LIREvaluator._execute_op\<close> reads its operands from left to right. When the first
  operand that is not a plain bound value holds an error, the instruction returns that
  error and leaves the state as it was: the operator is neither looked up nor applied, and
  the target is not assigned.
\<close>

theorem execute_op_short_circuit:
  assumes "i < length args"
    and "\<forall>j<i. \<exists>w. vars state (args ! j) = Some w \<and> \<not> is_error w"
    and "vars state (args ! i) = Some v"
    and "is_error v"
  shows "execute_op reg target ns name args state = (Some v, state)"
  using lir_args_first_error[OF assms, of "[]"] by (simp add: execute_op_def)

theorem execute_op_short_circuit_witness:
  "(1::nat) < length [''a'', ''b'', ''c'']
   \<and> vars op_state ([''a'', ''b'', ''c''] ! 1) = Some (ErrorVal DivideByZero None)
   \<and> is_error (ErrorVal DivideByZero None)
   \<and> execute_op call_registry ''r'' ''core'' ''pair'' [''a'', ''b'', ''c''] op_state
       = (Some (ErrorVal DivideByZero None), op_state)"
  using execute_op_short_circuit[of 1 "[''a'', ''b'', ''c'']" op_state "ErrorVal DivideByZero None"
      call_registry "''r''" "''core''" "''pair''"]
  by (simp add: op_state_def is_error_def)

end
